theory Spec2Isabelle
  imports Complex_Main "HOL-Library.Multiset"
begin

section \<open>Capacitated p-median branch-and-price: shallow embedding\<close>

text \<open>
  The development follows the C sources of the CPMP example: the pricer
  (\<^verbatim>\<open>pricer_cpmp.c\<close>), the variable data (\<^verbatim>\<open>vardata.c\<close>), the problem data
  (\<^verbatim>\<open>probdata.c\<close>), the semi-assignment branching rule (\<^verbatim>\<open>branch_semiassign.c\<close>)
  and the constraint handler for branching decisions (\<^verbatim>\<open>cons_semiassign.c\<close>).
  C arrays are lists, \<^verbatim>\<open>SCIP_Real\<close> is \<^typ>\<open>real\<close>, \<^verbatim>\<open>SCIP_Longint\<close> is \<^typ>\<open>int\<close>,
  array indices are natural numbers. State that the C code mutates through pointers
  is passed in and returned.
\<close>

subsection \<open>Numerical comparisons of the solving engine\<close>

text \<open>
  The tolerance comparisons are macros and functions of the SCIP library
  (\<^verbatim>\<open>EPSZ\<close>, \<^verbatim>\<open>EPSISINT\<close>, \<^verbatim>\<open>EPSN\<close>, \<^verbatim>\<open>SCIPrelDiff\<close>), not of this repository.
  They are written out here over the reals, with the feasibility tolerance
  \<open>feastol\<close> (\<^verbatim>\<open>numerics/feastol\<close>, by default \<open>1e-6\<close>) as a parameter.
\<close>

definition SCIPisFeasZero :: "real \<Rightarrow> real \<Rightarrow> bool" where
  "SCIPisFeasZero feastol x = (\<bar>x\<bar> \<le> feastol)"

definition SCIPisFeasIntegral :: "real \<Rightarrow> real \<Rightarrow> bool" where
  "SCIPisFeasIntegral feastol x = (x - of_int \<lfloor>x + feastol\<rfloor> \<le> feastol)"

definition SCIPrelDiff :: "real \<Rightarrow> real \<Rightarrow> real" where
  "SCIPrelDiff a b = (a - b) / max (max 1 \<bar>a\<bar>) \<bar>b\<bar>"

definition SCIPisFeasLT :: "real \<Rightarrow> real \<Rightarrow> real \<Rightarrow> bool" where
  "SCIPisFeasLT feastol a b = (SCIPrelDiff a b < - feastol)"

definition SCIPinfinity :: real where
  "SCIPinfinity = 10 ^ 20"

subsection \<open>Restriction state of the pricer\<close>

text \<open>
  \<^verbatim>\<open>struct SCIP_PricerData\<close>: the matrix \<^verbatim>\<open>forbiddenassignments[median][location]\<close>.
\<close>

record SCIP_PricerData =
  forbiddenassignments :: "bool list list"

text \<open>\<^verbatim>\<open>pricerInitsolCpmp\<close>: an \<open>n \<times> n\<close> matrix, cleared.\<close>

definition pricerInitsolCpmp :: "nat \<Rightarrow> SCIP_PricerData" where
  "pricerInitsolCpmp nlocations =
     \<lparr>forbiddenassignments = replicate nlocations (replicate nlocations False)\<rparr>"

definition set_assignment :: "SCIP_PricerData \<Rightarrow> nat \<Rightarrow> nat \<Rightarrow> bool \<Rightarrow> SCIP_PricerData" where
  "set_assignment pd median location b =
     pd\<lparr>forbiddenassignments :=
          (forbiddenassignments pd)[median := (forbiddenassignments pd ! median)[location := b]]\<rparr>"

text \<open>
  \<^verbatim>\<open>SCIPpricerCpmpForbidAssignments\<close>: for every median whose bit is set in the
  mask, the entry for the location is set to \<^verbatim>\<open>TRUE\<close>.
\<close>

definition SCIPpricerCpmpForbidAssignments ::
  "nat \<Rightarrow> SCIP_PricerData \<Rightarrow> nat \<Rightarrow> bool list \<Rightarrow> SCIP_PricerData" where
  "SCIPpricerCpmpForbidAssignments nlocations pd location forbidden =
     foldl (\<lambda>p median. if forbidden ! median then set_assignment p median location True else p)
       pd [0..<nlocations]"

text \<open>
  \<^verbatim>\<open>SCIPpricerCpmpAllowAssignments\<close>: for every median whose bit is set in the
  mask, the entry for the location is set to \<^verbatim>\<open>FALSE\<close>.
\<close>

definition SCIPpricerCpmpAllowAssignments ::
  "nat \<Rightarrow> SCIP_PricerData \<Rightarrow> nat \<Rightarrow> bool list \<Rightarrow> SCIP_PricerData" where
  "SCIPpricerCpmpAllowAssignments nlocations pd location forbidden =
     foldl (\<lambda>p median. if forbidden ! median then set_assignment p median location False else p)
       pd [0..<nlocations]"

definition SCIPpricerCpmpIsAssignmentForbidden :: "SCIP_PricerData \<Rightarrow> nat \<Rightarrow> nat \<Rightarrow> bool" where
  "SCIPpricerCpmpIsAssignmentForbidden pd median location =
     forbiddenassignments pd ! median ! location"

text \<open>The matrix has the shape allocated by \<^verbatim>\<open>pricerInitsolCpmp\<close>.\<close>

definition pricer_wf :: "nat \<Rightarrow> SCIP_PricerData \<Rightarrow> bool" where
  "pricer_wf nlocations pd =
     (length (forbiddenassignments pd) = nlocations \<and>
      list_all (\<lambda>row. length row = nlocations) (forbiddenassignments pd))"

text \<open>Both mask loops are the same loop up to the value written.\<close>

definition mask_loop ::
  "bool \<Rightarrow> SCIP_PricerData \<Rightarrow> nat \<Rightarrow> bool list \<Rightarrow> nat \<Rightarrow> SCIP_PricerData" where
  "mask_loop b pd location forbidden k =
     foldl (\<lambda>p median. if forbidden ! median then set_assignment p median location b else p)
       pd [0..<k]"

subsection \<open>Problem data, master variables and master constraints\<close>

text \<open>\<^verbatim>\<open>struct SCIP_ProbData\<close> without the constraint pointers, which live in the master.\<close>

record SCIP_ProbData =
  pd_nlocations :: nat
  pd_nclusters :: nat
  pd_distances :: "int list list"
  pd_demands :: "int list"
  pd_capacities :: "int list"

text \<open>
  A master variable with its \<^verbatim>\<open>SCIP_VARDATA\<close> (median, member locations; the C field
  \<^verbatim>\<open>nlocations\<close> is the length of the member list), its objective coefficient and its
  local bounds.
\<close>

record SCIP_VAR =
  var_median :: nat
  var_locations :: "nat list"
  var_obj :: real
  var_lb :: real
  var_ub :: real

definition SCIPvarGetMedian :: "SCIP_VAR \<Rightarrow> nat" where
  "SCIPvarGetMedian var = var_median var"

definition SCIPvarGetLocations :: "SCIP_VAR \<Rightarrow> nat list" where
  "SCIPvarGetLocations var = var_locations var"

definition SCIPvarGetNLocations :: "SCIP_VAR \<Rightarrow> nat" where
  "SCIPvarGetNLocations var = length (var_locations var)"

text \<open>\<^verbatim>\<open>SCIPisLocationInCluster\<close>: linear search through the member array.\<close>

fun location_search :: "nat list \<Rightarrow> nat \<Rightarrow> bool" where
  "location_search [] location = False"
| "location_search (l # ls) location = (if l = location then True else location_search ls location)"

definition SCIPisLocationInCluster :: "SCIP_VAR \<Rightarrow> nat \<Rightarrow> bool" where
  "SCIPisLocationInCluster var location = location_search (var_locations var) location"

text \<open>
  A linear master constraint: left and right hand side and the coefficients of the
  variables (by index) added to it so far.
\<close>

record linear_cons =
  lc_lhs :: real
  lc_rhs :: real
  lc_coefs :: "(nat \<times> real) list"

record master =
  m_vars :: "SCIP_VAR list"
  m_serviceconss :: "linear_cons list"
  m_convconss :: "linear_cons list"
  m_mediancons :: linear_cons

text \<open>
  \<^verbatim>\<open>createConstraints\<close> (\<^verbatim>\<open>probdata.c\<close>): per location a service row \<open>[1, \<infinity>)\<close> and a
  convexity row \<open>[0, 1]\<close>, and the p-median row \<open>[0, nclusters]\<close>; no variables yet.
\<close>

definition createConstraints :: "nat \<Rightarrow> nat \<Rightarrow> master" where
  "createConstraints nclusters nlocations =
     \<lparr>m_vars = [],
      m_serviceconss = replicate nlocations \<lparr>lc_lhs = 1, lc_rhs = SCIPinfinity, lc_coefs = []\<rparr>,
      m_convconss = replicate nlocations \<lparr>lc_lhs = 0, lc_rhs = 1, lc_coefs = []\<rparr>,
      m_mediancons = \<lparr>lc_lhs = 0, lc_rhs = of_nat nclusters, lc_coefs = []\<rparr>\<rparr>"

subsection \<open>The pricer\<close>

text \<open>
  \<^verbatim>\<open>addColumn\<close>. The local \<^verbatim>\<open>cost\<close> is never assigned before it is handed to
  \<^verbatim>\<open>SCIPcreateVarBasic\<close>; its indeterminate value is the parameter \<open>cost\<close>. The variable
  is created with bounds \<open>[0, 1]\<close>, receives its variable data and is added to the
  problem; \<^verbatim>\<open>SCIPchgVarUbLazy\<close> repeats the upper bound 1. The function adds the
  variable to no constraint: the body under the second \<^verbatim>\<open>TODO\<close> is empty. The score
  only travels to \<^verbatim>\<open>SCIPaddPricedVar\<close>.
\<close>

definition addColumn :: "master \<Rightarrow> nat \<Rightarrow> nat list \<Rightarrow> nat \<Rightarrow> real \<Rightarrow> real \<Rightarrow> master" where
  "addColumn m median locations nlocations score cost =
     m\<lparr>m_vars := m_vars m @
          [\<lparr>var_median = median, var_locations = take nlocations locations,
            var_obj = cost, var_lb = 0, var_ub = 1\<rparr>]\<rparr>"

text \<open>
  The knapsack instance handed to \<^verbatim>\<open>SCIPsolveKnapsackExactly\<close>: the first \<^verbatim>\<open>nitems\<close>
  entries of the item, weight and profit buffers, and the capacity.
\<close>

record knapsack =
  kp_nitems :: nat
  kp_weights :: "int list"
  kp_profits :: "real list"
  kp_capacity :: int
  kp_items :: "nat list"

text \<open>
  The part of the median loop of \<^verbatim>\<open>performPricing\<close> before the solver call:
  \<^verbatim>\<open>nitems = 0\<close>, and nothing is stored in the buffers (the body under the
  \<^verbatim>\<open>TODO\<close> is empty), whatever the restriction state and the pricing mode.
\<close>

definition pricingProblem ::
  "SCIP_ProbData \<Rightarrow> SCIP_PricerData \<Rightarrow> bool \<Rightarrow> nat \<Rightarrow> knapsack" where
  "pricingProblem prob pricerdata useredcost median =
     (let nitems = 0 in
      \<lparr>kp_nitems = nitems, kp_weights = [], kp_profits = [],
       kp_capacity = pd_capacities prob ! median, kp_items = []\<rparr>)"

datatype SCIP_RESULT =
  SCIP_DIDNOTRUN | SCIP_DIDNOTFIND | SCIP_SUCCESS | SCIP_BRANCHED | SCIP_CUTOFF
  | SCIP_REDUCEDDOM

text \<open>
  \<^verbatim>\<open>performPricing\<close>. The knapsack solver is the parameter \<open>solve\<close>, which returns the
  success flag, the chosen items and the profit; \<open>stopped\<close> is \<^verbatim>\<open>SCIPisStopped\<close> as
  asked before each median. The state of the loop is the result code, the master
  problem and the instances handed to the solver so far. After a successful solve
  the result becomes \<^verbatim>\<open>SCIP_SUCCESS\<close>; no score is computed and \<^verbatim>\<open>addColumn\<close> is not
  called (the block under \<^verbatim>\<open>if( TRUE )\<close> is empty), so the master is returned as it was.
\<close>

fun pricing_loop ::
  "SCIP_ProbData \<Rightarrow> SCIP_PricerData \<Rightarrow> bool \<Rightarrow> (knapsack \<Rightarrow> bool \<times> nat list \<times> real) \<Rightarrow>
   (nat \<Rightarrow> bool) \<Rightarrow> nat list \<Rightarrow> SCIP_RESULT \<times> master \<times> knapsack list \<Rightarrow>
   SCIP_RESULT \<times> master \<times> knapsack list" where
  "pricing_loop prob pricerdata useredcost solve stopped [] st = st"
| "pricing_loop prob pricerdata useredcost solve stopped (median # medians) (result, m, calls) =
     (if stopped median then (result, m, calls)
      else
        (let kp = pricingProblem prob pricerdata useredcost median;
             (success, solitems, solval) = solve kp
         in pricing_loop prob pricerdata useredcost solve stopped medians
              (if success then SCIP_SUCCESS else result, m, calls @ [kp])))"

definition performPricing ::
  "SCIP_ProbData \<Rightarrow> SCIP_PricerData \<Rightarrow> bool \<Rightarrow> (knapsack \<Rightarrow> bool \<times> nat list \<times> real) \<Rightarrow>
   (nat \<Rightarrow> bool) \<Rightarrow> master \<Rightarrow> SCIP_RESULT \<times> master \<times> knapsack list" where
  "performPricing prob pricerdata useredcost solve stopped m =
     pricing_loop prob pricerdata useredcost solve stopped [0..<pd_nlocations prob]
       (SCIP_DIDNOTRUN, m, [])"

text \<open>
  The item list the pricing round is meant to use for a median, in the words of the
  specification: all locations whose assignment to the median is not forbidden.
\<close>

definition eligible_locations :: "nat \<Rightarrow> SCIP_PricerData \<Rightarrow> nat \<Rightarrow> nat list" where
  "eligible_locations nlocations pricerdata median =
     filter (\<lambda>l. \<not> SCIPpricerCpmpIsAssignmentForbidden pricerdata median l) [0..<nlocations]"

subsection \<open>The branching rule\<close>

datatype scip_error = AssertionFailed

text \<open>
  \<^verbatim>\<open>computeAssignments\<close>: the matrix is cleared, then every master variable adds its
  solution value to the entry (member, median) of each of its members. The location
  is the first index and the median the second. \<open>sol\<close> holds the value
  \<^verbatim>\<open>SCIPgetSolVal\<close> of the variable with the same index.
\<close>

definition add_assignment :: "real list list \<Rightarrow> nat \<Rightarrow> nat \<Rightarrow> real \<Rightarrow> real list list" where
  "add_assignment assignments member cluster val =
     assignments[member := (assignments ! member)[cluster := assignments ! member ! cluster + val]]"

definition computeAssignments :: "nat \<Rightarrow> SCIP_VAR list \<Rightarrow> real list \<Rightarrow> real list list" where
  "computeAssignments nlocations vars sol =
     foldl (\<lambda>assignments i.
              foldl (\<lambda>a member. add_assignment a member (SCIPvarGetMedian (vars ! i)) (sol ! i))
                assignments (SCIPvarGetLocations (vars ! i)))
       (replicate nlocations (replicate nlocations 0)) [0..<length vars]"

text \<open>
  \<^verbatim>\<open>SCIPsortDownRealInt\<close> belongs to the SCIP library. It sorts the key array into
  non-increasing order and applies the same permutation to the integer array; it
  promises nothing about the order of equal keys. It is a parameter \<open>srt\<close> of the
  branching rule, and \<open>sortDown_contract\<close> is all that is assumed about it.
\<close>

definition sortDown_contract :: "(real list \<Rightarrow> nat list \<Rightarrow> real list \<times> nat list) \<Rightarrow> bool" where
  "sortDown_contract srt =
     (\<forall>keys ids. length keys = length ids \<longrightarrow>
        (case srt keys ids of (keys', ids') \<Rightarrow>
           length keys' = length keys \<and> length ids' = length ids \<and>
           mset (zip keys' ids') = mset (zip keys ids) \<and>
           sorted_wrt (\<lambda>a b. a \<ge> b) keys'))"

text \<open>
  One sorting routine that meets the contract, to run the branching rule on concrete
  data: the pairs are inserted from the last to the first into a non-increasing
  list, each in front of the pairs whose key is not larger, so that equal keys stay
  in the order of their indices.
\<close>

fun insert_down :: "real \<times> nat \<Rightarrow> (real \<times> nat) list \<Rightarrow> (real \<times> nat) list" where
  "insert_down p [] = [p]"
| "insert_down p (q # qs) = (if fst p < fst q then q # insert_down p qs else p # q # qs)"

definition sortDown_insertion :: "real list \<Rightarrow> nat list \<Rightarrow> real list \<times> nat list" where
  "sortDown_insertion keys ids =
     (let ps = foldr insert_down (zip keys ids) [] in (map fst ps, map snd ps))"

text \<open>
  \<^verbatim>\<open>sortMedians\<close>: every row of the assignment matrix is sorted in place, together with
  its row of median indices. The result pairs each sorted row with its median order.
\<close>

definition sortMedians ::
  "(real list \<Rightarrow> nat list \<Rightarrow> real list \<times> nat list) \<Rightarrow> nat \<Rightarrow> nat list list \<Rightarrow>
   real list list \<Rightarrow> (real list \<times> nat list) list" where
  "sortMedians srt nlocations sortedids assignments =
     map (\<lambda>i. srt (assignments ! i) (sortedids ! i)) [0..<nlocations]"

text \<open>
  The median loop of \<^verbatim>\<open>chooseLocation\<close> for one row: the number of fractional
  entries, their sum, and the sum of those at an even index of the row.
\<close>

definition frac_step :: "real \<Rightarrow> real list \<Rightarrow> nat \<times> real \<times> real \<Rightarrow> nat \<Rightarrow> nat \<times> real \<times> real" where
  "frac_step feastol row st median =
     (case st of (nfracmedians, totfrac, halffrac) \<Rightarrow>
        if \<not> SCIPisFeasIntegral feastol (row ! median)
        then (nfracmedians + 1, totfrac + row ! median,
              if median mod 2 = 0 then halffrac + row ! median else halffrac)
        else (nfracmedians, totfrac, halffrac))"

definition frac_stats :: "real \<Rightarrow> nat \<Rightarrow> real list \<Rightarrow> nat \<times> real \<times> real" where
  "frac_stats feastol nlocations row = foldl (frac_step feastol row) (0, 0, 0) [0..<nlocations]"

definition nfrac :: "real \<Rightarrow> nat \<Rightarrow> real list \<Rightarrow> nat" where
  "nfrac feastol nlocations row = fst (frac_stats feastol nlocations row)"

definition fracdiff :: "real \<Rightarrow> nat \<Rightarrow> real list \<Rightarrow> real" where
  "fracdiff feastol nlocations row =
     (case frac_stats feastol nlocations row of
        (nfracmedians, totfrac, halffrac) \<Rightarrow> \<bar>halffrac - 0.5 * totfrac\<bar>)"

text \<open>
  \<^verbatim>\<open>chooseLocation\<close>: the state of the location loop is the chosen location (\<open>-1\<close> for
  none), \<^verbatim>\<open>maxnfracmedians\<close> and \<^verbatim>\<open>minfracdiff\<close>.
\<close>

definition choose_step ::
  "real \<Rightarrow> nat \<Rightarrow> real list list \<Rightarrow> int \<times> nat \<times> real \<Rightarrow> nat \<Rightarrow> int \<times> nat \<times> real" where
  "choose_step feastol nlocations assignments st i =
     (case st of (location, maxnfracmedians, minfracdiff) \<Rightarrow>
        (case frac_stats feastol nlocations (assignments ! i) of
           (nfracmedians, totfrac, halffrac) \<Rightarrow>
             if nfracmedians > maxnfracmedians \<or>
                (nfracmedians > 0 \<and> nfracmedians = maxnfracmedians \<and>
                 SCIPisFeasLT feastol \<bar>halffrac - 0.5 * totfrac\<bar> minfracdiff)
             then (int i, nfracmedians, \<bar>halffrac - 0.5 * totfrac\<bar>)
             else (location, maxnfracmedians, minfracdiff)))"

definition choose_loop :: "real \<Rightarrow> nat \<Rightarrow> real list list \<Rightarrow> nat \<Rightarrow> int \<times> nat \<times> real" where
  "choose_loop feastol nlocations assignments k =
     foldl (choose_step feastol nlocations assignments) (- 1, 0, SCIPinfinity) [0..<k]"

definition chooseLocation :: "real \<Rightarrow> nat \<Rightarrow> real list list \<Rightarrow> int" where
  "chooseLocation feastol nlocations assignments =
     fst (choose_loop feastol nlocations assignments nlocations)"

text \<open>
  \<^verbatim>\<open>struct SCIP_ConsData\<close> of a semi-assignment constraint; \<open>cons_node\<close> is the number
  of the child node the constraint was created for.
\<close>

record SCIP_ConsData =
  cons_location :: nat
  cons_forbidden :: "bool list"
  cons_node :: nat
  cons_propagate :: bool
  cons_npropvars :: nat

text \<open>\<^verbatim>\<open>SCIPcreateConsSemiassign\<close>: the mask is copied, the constraint starts unpropagated.\<close>

definition SCIPcreateConsSemiassign :: "nat \<Rightarrow> nat \<Rightarrow> bool list \<Rightarrow> nat \<Rightarrow> SCIP_ConsData" where
  "SCIPcreateConsSemiassign nlocations location forbidden node =
     \<lparr>cons_location = location, cons_forbidden = take nlocations forbidden, cons_node = node,
      cons_propagate = True, cons_npropvars = 0\<rparr>"

text \<open>
  The median loop of \<^verbatim>\<open>performBranching\<close>. The assertion is a branch of the model:
  a failed assertion ends the run. The parity is that of the position \<open>i\<close> in the
  sorted order, counted over all medians.
\<close>

definition branching_assertion :: "real \<Rightarrow> nat list \<Rightarrow> real list \<Rightarrow> nat \<Rightarrow> bool" where
  "branching_assertion feastol sortedids assignments i =
     (\<not> SCIPisFeasIntegral feastol (assignments ! (sortedids ! i)) \<or>
      SCIPisFeasZero feastol (assignments ! (sortedids ! i)))"

definition branching_step ::
  "real \<Rightarrow> SCIP_PricerData \<Rightarrow> nat list \<Rightarrow> real list \<Rightarrow> nat \<Rightarrow>
   scip_error + bool list \<times> bool list \<Rightarrow> nat \<Rightarrow> scip_error + bool list \<times> bool list" where
  "branching_step feastol pricerdata sortedids assignments location st i =
     (case st of
        Inl e \<Rightarrow> Inl e
      | Inr (leftforbidden, rightforbidden) \<Rightarrow>
          if \<not> branching_assertion feastol sortedids assignments i
          then Inl AssertionFailed
          else if SCIPpricerCpmpIsAssignmentForbidden pricerdata (sortedids ! i) location
          then Inr (leftforbidden, rightforbidden)
          else if i mod 2 = 1
          then Inr (leftforbidden[sortedids ! i := False], rightforbidden[sortedids ! i := True])
          else Inr (leftforbidden[sortedids ! i := True], rightforbidden[sortedids ! i := False]))"

definition branching_loop ::
  "real \<Rightarrow> nat \<Rightarrow> SCIP_PricerData \<Rightarrow> nat list \<Rightarrow> real list \<Rightarrow> nat \<Rightarrow> nat \<Rightarrow>
   scip_error + bool list \<times> bool list" where
  "branching_loop feastol nlocations pricerdata sortedids assignments location k =
     foldl (branching_step feastol pricerdata sortedids assignments location)
       (Inr (replicate nlocations False, replicate nlocations False)) [0..<k]"

text \<open>
  \<^verbatim>\<open>performBranching\<close>: after the loop, two child nodes are created, the first with the
  constraint of the left mask and the second with the constraint of the right mask.
  The result lists the constraint of each created child, in creation order.
\<close>

definition performBranching ::
  "real \<Rightarrow> nat \<Rightarrow> SCIP_PricerData \<Rightarrow> nat list \<Rightarrow> real list \<Rightarrow> nat \<Rightarrow>
   scip_error + SCIP_ConsData list" where
  "performBranching feastol nlocations pricerdata sortedids assignments location =
     (case branching_loop feastol nlocations pricerdata sortedids assignments location nlocations of
        Inl e \<Rightarrow> Inl e
      | Inr (leftforbidden, rightforbidden) \<Rightarrow>
          Inr [SCIPcreateConsSemiassign nlocations location leftforbidden 0,
               SCIPcreateConsSemiassign nlocations location rightforbidden 1])"

text \<open>
  \<^verbatim>\<open>branchExeclpSemiassign\<close>: identity median order per location, assignments, sorting,
  choice of the location, branching. The result is the result code with the
  constraints of the created children.
\<close>

definition sorted_assignments ::
  "(real list \<Rightarrow> nat list \<Rightarrow> real list \<times> nat list) \<Rightarrow> nat \<Rightarrow> SCIP_VAR list \<Rightarrow> real list \<Rightarrow>
   (real list \<times> nat list) list" where
  "sorted_assignments srt nlocations vars sol =
     sortMedians srt nlocations (replicate nlocations [0..<nlocations])
       (computeAssignments nlocations vars sol)"

definition branch_location ::
  "real \<Rightarrow> (real list \<Rightarrow> nat list \<Rightarrow> real list \<times> nat list) \<Rightarrow> nat \<Rightarrow> SCIP_VAR list \<Rightarrow>
   real list \<Rightarrow> int" where
  "branch_location feastol srt nlocations vars sol =
     chooseLocation feastol nlocations (map fst (sorted_assignments srt nlocations vars sol))"

definition branchExeclpSemiassign ::
  "real \<Rightarrow> (real list \<Rightarrow> nat list \<Rightarrow> real list \<times> nat list) \<Rightarrow> nat \<Rightarrow> SCIP_PricerData \<Rightarrow>
   SCIP_VAR list \<Rightarrow> real list \<Rightarrow> scip_error + SCIP_RESULT \<times> SCIP_ConsData list" where
  "branchExeclpSemiassign feastol srt nlocations pricerdata vars sol =
     (let sorted = sorted_assignments srt nlocations vars sol;
          assignments = map fst sorted;
          sortedids = map snd sorted;
          location = branch_location feastol srt nlocations vars sol
      in if location = - 1 then Inr (SCIP_DIDNOTFIND, [])
         else
           (case performBranching feastol nlocations pricerdata (sortedids ! nat location)
                   (assignments ! nat location) (nat location) of
              Inl e \<Rightarrow> Inl e
            | Inr children \<Rightarrow> Inr (SCIP_BRANCHED, children)))"

text \<open>
  The quantities of the selection rule in set form: the medians (indices of a row)
  with a fractional entry, and the distance between the sum over the even ones and
  half the sum over all of them.
\<close>

definition frac_medians :: "real \<Rightarrow> nat \<Rightarrow> real list \<Rightarrow> nat set" where
  "frac_medians feastol n row = {j \<in> {..<n}. \<not> SCIPisFeasIntegral feastol (row ! j)}"

definition half_gap :: "real \<Rightarrow> nat \<Rightarrow> real list \<Rightarrow> real" where
  "half_gap feastol n row =
     \<bar>(\<Sum>j \<in> {j \<in> frac_medians feastol n row. even j}. row ! j) -
      0.5 * (\<Sum>j \<in> frac_medians feastol n row. row ! j)\<bar>"

text \<open>The row of a location as \<^verbatim>\<open>chooseLocation\<close> reads it: after \<^verbatim>\<open>sortMedians\<close>.\<close>

definition sorted_row ::
  "(real list \<Rightarrow> nat list \<Rightarrow> real list \<times> nat list) \<Rightarrow> nat \<Rightarrow> SCIP_VAR list \<Rightarrow> real list \<Rightarrow>
   nat \<Rightarrow> real list" where
  "sorted_row srt n vars sol i = fst (srt (computeAssignments n vars sol ! i) [0..<n])"

text \<open>
  The alternation in the words of the specification: the medians of the sorted order
  that are not yet forbidden for the location, the first of them for the left mask,
  the second for the right mask, and so on.
\<close>

fun alternate :: "nat list \<Rightarrow> bool \<Rightarrow> nat list \<times> nat list" where
  "alternate [] toleft = ([], [])"
| "alternate (m # ms) toleft =
     (case alternate ms (\<not> toleft) of
        (ls, rs) \<Rightarrow> if toleft then (m # ls, rs) else (ls, m # rs))"

definition remaining_candidates :: "SCIP_PricerData \<Rightarrow> nat list \<Rightarrow> nat \<Rightarrow> nat list" where
  "remaining_candidates pricerdata sortedids location =
     filter (\<lambda>m. \<not> SCIPpricerCpmpIsAssignmentForbidden pricerdata m location) sortedids"

text \<open>The set of medians a mask forbids.\<close>

definition forbidden_set :: "nat \<Rightarrow> bool list \<Rightarrow> nat set" where
  "forbidden_set n forbidden = {m \<in> {..<n}. forbidden ! m}"

subsection \<open>The constraint handler for branching decisions\<close>

text \<open>
  \<^verbatim>\<open>SCIPfixVar\<close> belongs to the solving engine. By its contract the fixing is
  infeasible when the value is not integral (the columns are integer variables) or
  lies outside the bounds of the variable, and the bounds are left alone; otherwise
  both bounds become the value. The result is the variable with the flags
  \<^verbatim>\<open>infeasible\<close> and \<^verbatim>\<open>fixed\<close>.
\<close>

definition SCIPfixVar :: "real \<Rightarrow> SCIP_VAR \<Rightarrow> real \<Rightarrow> SCIP_VAR \<times> bool \<times> bool" where
  "SCIPfixVar feastol var fixedval =
     (if \<not> SCIPisFeasIntegral feastol fixedval \<or> SCIPisFeasLT feastol fixedval (var_lb var) \<or>
         SCIPisFeasLT feastol (var_ub var) fixedval
      then (var, True, False)
      else (var\<lparr>var_lb := fixedval, var_ub := fixedval\<rparr>, False, True))"

text \<open>The test of the variable loop of \<^verbatim>\<open>consPropSemiassign\<close>.\<close>

definition must_fix :: "real \<Rightarrow> SCIP_ConsData \<Rightarrow> SCIP_VAR \<Rightarrow> bool" where
  "must_fix feastol consdata var =
     (\<not> SCIPisFeasZero feastol (var_ub var) \<and>
      cons_forbidden consdata ! SCIPvarGetMedian var \<and>
      SCIPisLocationInCluster var (cons_location consdata))"

text \<open>
  The variable loop of \<^verbatim>\<open>consPropSemiassign\<close> for one constraint, from index \<open>i\<close>
  on. It returns the variables, the result code and the index at which the loop
  stopped: the number of variables, or the index of the variable whose fixing was
  infeasible (the \<^verbatim>\<open>break\<close>).
\<close>

function propagate_vars ::
  "real \<Rightarrow> SCIP_ConsData \<Rightarrow> SCIP_VAR list \<Rightarrow> nat \<Rightarrow> SCIP_RESULT \<Rightarrow>
   scip_error + SCIP_VAR list \<times> SCIP_RESULT \<times> nat" where
  "propagate_vars feastol consdata vars i result =
     (if i < length vars then
        (if must_fix feastol consdata (vars ! i) then
           (case SCIPfixVar feastol (vars ! i) 0 of
              (var', infeasible, fixed) \<Rightarrow>
                if infeasible then Inr (vars[i := var'], SCIP_CUTOFF, i)
                else if \<not> fixed then Inl AssertionFailed
                else propagate_vars feastol consdata (vars[i := var']) (Suc i) SCIP_REDUCEDDOM)
         else propagate_vars feastol consdata vars (Suc i) result)
      else Inr (vars, result, i))"
  by pat_completeness auto
termination
  by (relation "measure (\<lambda>(feastol, consdata, vars, i, result). length vars - i)") auto

declare propagate_vars.simps [simp del]

text \<open>
  \<^verbatim>\<open>consPropSemiassign\<close>: the loop over the constraints handed over by the engine
  (the active ones), which ends at the first cutoff. A constraint whose
  \<^verbatim>\<open>propagate\<close> flag is set is propagated from its mark \<^verbatim>\<open>npropvars\<close>; afterwards the
  flag is cleared and the mark is the index at which the variable loop stopped.
\<close>

fun propagate_conss ::
  "real \<Rightarrow> SCIP_ConsData list \<Rightarrow> SCIP_VAR list \<Rightarrow> SCIP_RESULT \<Rightarrow>
   scip_error + SCIP_ConsData list \<times> SCIP_VAR list \<times> SCIP_RESULT" where
  "propagate_conss feastol [] vars result = Inr ([], vars, result)"
| "propagate_conss feastol (consdata # conss) vars result =
     (if result = SCIP_CUTOFF then Inr (consdata # conss, vars, result)
      else if cons_propagate consdata then
        (case propagate_vars feastol consdata vars (cons_npropvars consdata) result of
           Inl e \<Rightarrow> Inl e
         | Inr (vars', result', i) \<Rightarrow>
             (case propagate_conss feastol conss vars' result' of
                Inl e \<Rightarrow> Inl e
              | Inr (conss', vars'', result'') \<Rightarrow>
                  Inr (consdata\<lparr>cons_propagate := False, cons_npropvars := i\<rparr> # conss',
                       vars'', result'')))
      else
        (case propagate_conss feastol conss vars result of
           Inl e \<Rightarrow> Inl e
         | Inr (conss', vars'', result'') \<Rightarrow> Inr (consdata # conss', vars'', result'')))"




text \<open>
  What a propagated constraint has achieved: every variable below its mark whose
  median it forbids and whose cluster contains its location has bounds \<open>[0, 0]\<close>.
  The columns are 0/1 variables.
\<close>

definition fixed_to_zero :: "SCIP_VAR \<Rightarrow> bool" where
  "fixed_to_zero var = (var_lb var = 0 \<and> var_ub var = 0)"

definition violates :: "SCIP_ConsData \<Rightarrow> SCIP_VAR \<Rightarrow> bool" where
  "violates consdata var =
     (cons_forbidden consdata ! SCIPvarGetMedian var \<and>
      SCIPisLocationInCluster var (cons_location consdata))"

definition propagated_upto :: "SCIP_ConsData \<Rightarrow> SCIP_VAR list \<Rightarrow> nat \<Rightarrow> bool" where
  "propagated_upto consdata vars k =
     list_all (\<lambda>i. violates consdata (vars ! i) \<longrightarrow> fixed_to_zero (vars ! i)) [0..<k]"


subsection \<open>Shapes of the data\<close>

text \<open>An \<open>n \<times> n\<close> matrix, as allocated by \<^verbatim>\<open>branchExeclpSemiassign\<close>.\<close>

definition matrix_wf :: "nat \<Rightarrow> 'a list list \<Rightarrow> bool" where
  "matrix_wf n A = (length A = n \<and> list_all (\<lambda>row. length row = n) A)"

text \<open>
  The columns of the master: median and members are locations, and the members of a
  cluster are a set (no location is listed twice).
\<close>

definition vars_wf :: "nat \<Rightarrow> SCIP_VAR list \<Rightarrow> bool" where
  "vars_wf n vars =
     list_all (\<lambda>var. var_median var < n \<and> list_all (\<lambda>l. l < n) (var_locations var) \<and>
                     distinct (var_locations var)) vars"

text \<open>The variable loop of \<^verbatim>\<open>computeAssignments\<close> after \<open>k\<close> variables.\<close>

definition assign_loop :: "nat \<Rightarrow> SCIP_VAR list \<Rightarrow> real list \<Rightarrow> nat \<Rightarrow> real list list" where
  "assign_loop nlocations vars sol k =
     foldl (\<lambda>assignments i.
              foldl (\<lambda>a member. add_assignment a member (SCIPvarGetMedian (vars ! i)) (sol ! i))
                assignments (SCIPvarGetLocations (vars ! i)))
       (replicate nlocations (replicate nlocations 0)) [0..<k]"

text \<open>
  Invariants of the two loops of the branching rule, for the proofs below: the state
  of the location loop of \<^verbatim>\<open>chooseLocation\<close> after \<open>k\<close> locations, and the masks of
  \<^verbatim>\<open>performBranching\<close> after \<open>k\<close> positions of the sorted order.
\<close>

definition choose_inv :: "real \<Rightarrow> nat \<Rightarrow> real list list \<Rightarrow> nat \<Rightarrow> int \<times> nat \<times> real \<Rightarrow> bool" where
  "choose_inv eps n A k st =
     (case st of (loc, mx, md) \<Rightarrow>
        (mx = 0 \<longrightarrow> loc = - 1 \<and> (\<forall>i<k. nfrac eps n (A ! i) = 0)) \<and>
        (0 < mx \<longrightarrow> 0 \<le> loc \<and> nat loc < k \<and> nfrac eps n (A ! nat loc) = mx \<and>
           md = fracdiff eps n (A ! nat loc) \<and>
           (\<forall>i<k. nfrac eps n (A ! i) \<le> mx) \<and>
           (\<forall>i<k. nfrac eps n (A ! i) = mx \<longrightarrow> \<not> SCIPisFeasLT eps (fracdiff eps n (A ! i)) md)))"

definition branch_inv ::
  "nat \<Rightarrow> SCIP_PricerData \<Rightarrow> nat list \<Rightarrow> nat \<Rightarrow> nat \<Rightarrow> bool list \<Rightarrow> bool list \<Rightarrow> bool" where
  "branch_inv n pd ids loc k left right =
     (length left = n \<and> length right = n \<and>
      (\<forall>m<n. left ! m =
         (\<exists>p<k. ids ! p = m \<and> \<not> SCIPpricerCpmpIsAssignmentForbidden pd m loc \<and> even p)) \<and>
      (\<forall>m<n. right ! m =
         (\<exists>p<k. ids ! p = m \<and> \<not> SCIPpricerCpmpIsAssignmentForbidden pd m loc \<and> odd p)))"

text \<open>
  For concrete runs: a column as \<^verbatim>\<open>addColumn\<close> creates it (bounds \<open>[0, 1]\<close>), with
  objective 0.
\<close>

definition column :: "nat \<Rightarrow> nat list \<Rightarrow> SCIP_VAR" where
  "column m ls = \<lparr>var_median = m, var_locations = ls, var_obj = 0, var_lb = 0, var_ub = 1\<rparr>"







section \<open>Properties\<close>

subsection \<open>Restriction state: forbidding and allowing assignments\<close>

lemma set_assignment_wf:
  assumes wf: "pricer_wf n pd"
  shows "pricer_wf n (set_assignment pd m l b)"
proof -
  let ?A = "forbiddenassignments pd"
  have "length ((?A[m := (?A ! m)[l := b]]) ! k) = n" if "k < n" for k
  proof (cases "k = m")
    case True
    with that wf show ?thesis by (simp add: pricer_wf_def list_all_length)
  next
    case False
    with that wf show ?thesis by (simp add: pricer_wf_def list_all_length)
  qed
  with wf show ?thesis
    by (simp add: pricer_wf_def set_assignment_def list_all_length)
qed

lemma set_assignment_get:
  "pricer_wf n pd \<Longrightarrow> m < n \<Longrightarrow> l < n \<Longrightarrow> m' < n \<Longrightarrow> l' < n \<Longrightarrow>
   SCIPpricerCpmpIsAssignmentForbidden (set_assignment pd m l b) m' l' =
     (if m' = m \<and> l' = l then b else SCIPpricerCpmpIsAssignmentForbidden pd m' l')"
  by (auto simp: pricer_wf_def set_assignment_def SCIPpricerCpmpIsAssignmentForbidden_def
      list_all_length nth_list_update)

lemma mask_loop_wf:
  "pricer_wf n pd \<Longrightarrow> pricer_wf n (mask_loop b pd loc msk k)"
  by (induction k) (auto simp: mask_loop_def set_assignment_wf)

lemma mask_loop_get:
  "pricer_wf n pd \<Longrightarrow> loc < n \<Longrightarrow> k \<le> n \<Longrightarrow> m < n \<Longrightarrow> l < n \<Longrightarrow>
   SCIPpricerCpmpIsAssignmentForbidden (mask_loop b pd loc msk k) m l =
     (if l = loc \<and> m < k \<and> msk ! m then b else SCIPpricerCpmpIsAssignmentForbidden pd m l)"
proof (induction k)
  case 0
  then show ?case by (simp add: mask_loop_def)
next
  case (Suc k)
  have step: "mask_loop b pd loc msk (Suc k) =
      (if msk ! k then set_assignment (mask_loop b pd loc msk k) k loc b
       else mask_loop b pd loc msk k)"
    by (simp add: mask_loop_def)
  from Suc show ?case
    by (auto simp: step set_assignment_get [OF mask_loop_wf] less_Suc_eq)
qed

lemma pricer_eqI:
  assumes "pricer_wf n pd" "pricer_wf n pd'"
    and "\<And>m l. m < n \<Longrightarrow> l < n \<Longrightarrow>
      SCIPpricerCpmpIsAssignmentForbidden pd m l = SCIPpricerCpmpIsAssignmentForbidden pd' m l"
  shows "pd = pd'"
proof -
  have "forbiddenassignments pd = forbiddenassignments pd'"
    using assms
    by (auto simp: pricer_wf_def SCIPpricerCpmpIsAssignmentForbidden_def list_all_length
        intro!: nth_equalityI)
  then show ?thesis by simp
qed

lemma forbid_is_loop:
  "SCIPpricerCpmpForbidAssignments n pd loc msk = mask_loop True pd loc msk n"
  by (simp add: SCIPpricerCpmpForbidAssignments_def mask_loop_def)

lemma allow_is_loop:
  "SCIPpricerCpmpAllowAssignments n pd loc msk = mask_loop False pd loc msk n"
  by (simp add: SCIPpricerCpmpAllowAssignments_def mask_loop_def)

lemma forbid_wf: "pricer_wf n pd \<Longrightarrow> pricer_wf n (SCIPpricerCpmpForbidAssignments n pd loc msk)"
  by (simp add: forbid_is_loop mask_loop_wf)

lemma allow_wf: "pricer_wf n pd \<Longrightarrow> pricer_wf n (SCIPpricerCpmpAllowAssignments n pd loc msk)"
  by (simp add: allow_is_loop mask_loop_wf)

lemma forbid_get:
  "pricer_wf n pd \<Longrightarrow> loc < n \<Longrightarrow> m < n \<Longrightarrow> l < n \<Longrightarrow>
   SCIPpricerCpmpIsAssignmentForbidden (SCIPpricerCpmpForbidAssignments n pd loc msk) m l =
     (if l = loc \<and> msk ! m then True else SCIPpricerCpmpIsAssignmentForbidden pd m l)"
  by (simp add: forbid_is_loop mask_loop_get)

lemma allow_get:
  "pricer_wf n pd \<Longrightarrow> loc < n \<Longrightarrow> m < n \<Longrightarrow> l < n \<Longrightarrow>
   SCIPpricerCpmpIsAssignmentForbidden (SCIPpricerCpmpAllowAssignments n pd loc msk) m l =
     (if l = loc \<and> msk ! m then False else SCIPpricerCpmpIsAssignmentForbidden pd m l)"
  by (simp add: allow_is_loop mask_loop_get)

lemma pricerInitsol_wf: "pricer_wf n (pricerInitsolCpmp n)"
  by (simp add: pricer_wf_def pricerInitsolCpmp_def list_all_iff)

text \<open>
  Claim C6, as amended. On a well-shaped matrix and for a location in range:
  \<^verbatim>\<open>allowAssignments(loc, mask)\<close> after \<^verbatim>\<open>forbidAssignments(loc, mask)\<close> leaves
  \<^verbatim>\<open>isAssignmentForbidden(m, loc)\<close> false for every median \<open>m\<close> whose bit is set in the
  mask (which is the value before the forbid exactly when the pair was not forbidden
  before) and leaves every other entry as it was; forbidding pairs that are all
  forbidden already, and releasing pairs none of which is forbidden, changes nothing.
  Neither function has an error path.
\<close>

theorem forbid_then_allow:
  assumes "pricer_wf n pd" and "loc < n"
  shows "(\<forall>m<n. \<forall>l<n.
            SCIPpricerCpmpIsAssignmentForbidden
              (SCIPpricerCpmpAllowAssignments n (SCIPpricerCpmpForbidAssignments n pd loc msk) loc msk) m l =
            (if l = loc \<and> msk ! m then False else SCIPpricerCpmpIsAssignmentForbidden pd m l)) \<and>
         ((\<forall>m<n. msk ! m \<longrightarrow> SCIPpricerCpmpIsAssignmentForbidden pd m loc) \<longrightarrow>
            SCIPpricerCpmpForbidAssignments n pd loc msk = pd) \<and>
         ((\<forall>m<n. msk ! m \<longrightarrow> \<not> SCIPpricerCpmpIsAssignmentForbidden pd m loc) \<longrightarrow>
            SCIPpricerCpmpAllowAssignments n pd loc msk = pd)"
proof (intro conjI allI impI)
  fix m l assume "m < n" "l < n"
  with assms show "SCIPpricerCpmpIsAssignmentForbidden
              (SCIPpricerCpmpAllowAssignments n (SCIPpricerCpmpForbidAssignments n pd loc msk) loc msk) m l =
            (if l = loc \<and> msk ! m then False else SCIPpricerCpmpIsAssignmentForbidden pd m l)"
    by (simp add: allow_get [OF forbid_wf] forbid_get)
next
  assume a: "\<forall>m<n. msk ! m \<longrightarrow> SCIPpricerCpmpIsAssignmentForbidden pd m loc"
  show "SCIPpricerCpmpForbidAssignments n pd loc msk = pd"
    by (rule pricer_eqI [OF forbid_wf [OF assms(1)] assms(1)])
       (use a assms in \<open>auto simp: forbid_get\<close>)
next
  assume a: "\<forall>m<n. msk ! m \<longrightarrow> \<not> SCIPpricerCpmpIsAssignmentForbidden pd m loc"
  show "SCIPpricerCpmpAllowAssignments n pd loc msk = pd"
    by (rule pricer_eqI [OF allow_wf [OF assms(1)] assms(1)])
       (use a assms in \<open>auto simp: allow_get\<close>)
qed

text \<open>The theorem at a \<open>2 \<times> 2\<close> matrix, location 0 and the mask that selects median 0.\<close>

theorem forbid_then_allow_witness:
  "pricer_wf 2 (pricerInitsolCpmp 2) \<and> (0::nat) < 2 \<and>
   \<not> SCIPpricerCpmpIsAssignmentForbidden
       (SCIPpricerCpmpAllowAssignments 2
          (SCIPpricerCpmpForbidAssignments 2 (pricerInitsolCpmp 2) 0 [True, False]) 0 [True, False]) 0 0 \<and>
   SCIPpricerCpmpAllowAssignments 2 (pricerInitsolCpmp 2) 0 [True, False] = pricerInitsolCpmp 2"
proof -
  have unforbidden: "\<forall>m<2. [True, False] ! m \<longrightarrow>
      \<not> SCIPpricerCpmpIsAssignmentForbidden (pricerInitsolCpmp 2) m 0"
    by (simp add: SCIPpricerCpmpIsAssignmentForbidden_def pricerInitsolCpmp_def less_Suc_eq numeral_2_eq_2)
  from forbid_then_allow [OF pricerInitsol_wf, of 0 2 "[True, False]"] unforbidden
  show ?thesis by (simp add: pricerInitsol_wf)
qed

text \<open>
  Claim C6 as stated fails for a pair that was forbidden before: the round trip
  leaves it allowed, not at its value before the forbid.
\<close>

theorem forbid_then_allow_counterexample:
  "SCIPpricerCpmpIsAssignmentForbidden \<lparr>forbiddenassignments = [[True]]\<rparr> 0 0 \<and>
   \<not> SCIPpricerCpmpIsAssignmentForbidden
       (SCIPpricerCpmpAllowAssignments 1
          (SCIPpricerCpmpForbidAssignments 1 \<lparr>forbiddenassignments = [[True]]\<rparr> 0 [True]) 0 [True]) 0 0"
  by (simp add: SCIPpricerCpmpIsAssignmentForbidden_def SCIPpricerCpmpAllowAssignments_def
      SCIPpricerCpmpForbidAssignments_def set_assignment_def)

subsection \<open>The pricer: knapsack items and new columns\<close>

lemma pricing_loop_master:
  "fst (snd (pricing_loop prob pd useredcost solve stopped medians (result, m, calls))) = m"
  by (induction medians arbitrary: result calls) (auto simp: Let_def split_beta)

lemma pricing_loop_items:
  "list_all (\<lambda>kp. kp_items kp = []) calls \<Longrightarrow>
   list_all (\<lambda>kp. kp_items kp = [])
     (snd (snd (pricing_loop prob pd useredcost solve stopped medians (result, m, calls))))"
  by (induction medians arbitrary: result calls) (auto simp: Let_def split_beta pricingProblem_def)

text \<open>
  Claim C1 against the code. With two locations and nothing forbidden, a pricing
  round hands the solver an empty item list for either median, in both pricing
  modes and whatever the solver answers, while the locations eligible for each
  median are 0 and 1. The restriction state is not read at all.
\<close>

theorem pricing_items_empty:
  "map kp_items (snd (snd (performPricing
       \<lparr>pd_nlocations = 2, pd_nclusters = 1, pd_distances = [[0, 1], [1, 0]],
        pd_demands = [1, 1], pd_capacities = [2, 2]\<rparr>
       (pricerInitsolCpmp 2) useredcost solve (\<lambda>median. False) m))) = [[], []] \<and>
   eligible_locations 2 (pricerInitsolCpmp 2) 0 = [0, 1] \<and>
   eligible_locations 2 (pricerInitsolCpmp 2) 1 = [0, 1]"
  by (simp add: performPricing_def pricingProblem_def Let_def split_beta eligible_locations_def
      SCIPpricerCpmpIsAssignmentForbidden_def pricerInitsolCpmp_def upt_rec numeral_2_eq_2)

text \<open>
  Claim C7 against the code. \<^verbatim>\<open>addColumn\<close> for the cluster of median 0 with member 0
  creates the column with the indeterminate cost and adds it to no row: the service
  row of its member, the convexity row of its median and the p-median row stay
  without coefficients. A pricing round returns the master as it was.
\<close>

theorem addColumn_attaches_nothing:
  "m_vars (addColumn (createConstraints 1 1) 0 [0] 1 score cost) =
     [\<lparr>var_median = 0, var_locations = [0], var_obj = cost, var_lb = 0, var_ub = 1\<rparr>] \<and>
   map lc_coefs (m_serviceconss (addColumn (createConstraints 1 1) 0 [0] 1 score cost)) = [[]] \<and>
   map lc_coefs (m_convconss (addColumn (createConstraints 1 1) 0 [0] 1 score cost)) = [[]] \<and>
   lc_coefs (m_mediancons (addColumn (createConstraints 1 1) 0 [0] 1 score cost)) = [] \<and>
   fst (snd (performPricing prob pd useredcost solve stopped m)) = m"
  by (simp add: addColumn_def createConstraints_def performPricing_def pricing_loop_master)

subsection \<open>The assignment matrix of the branching rule\<close>

lemma location_search_iff: "location_search ls l \<longleftrightarrow> l \<in> set ls"
  by (induction ls) auto

lemma add_assignment_wf:
  assumes wf: "matrix_wf n A"
  shows "matrix_wf n (add_assignment A member cluster v)"
proof -
  have "length ((A[member := (A ! member)[cluster := x]]) ! k) = n" if "k < n" for k x
  proof (cases "k = member")
    case True
    with that wf show ?thesis by (simp add: matrix_wf_def list_all_length)
  next
    case False
    with that wf show ?thesis by (simp add: matrix_wf_def list_all_length)
  qed
  with wf show ?thesis
    by (simp add: matrix_wf_def add_assignment_def list_all_length)
qed

lemma add_assignment_get:
  "matrix_wf n A \<Longrightarrow> member < n \<Longrightarrow> cluster < n \<Longrightarrow> i < n \<Longrightarrow> j < n \<Longrightarrow>
   add_assignment A member cluster v ! i ! j =
     A ! i ! j + (if i = member \<and> j = cluster then v else 0)"
  by (auto simp: matrix_wf_def add_assignment_def list_all_length nth_list_update)

lemma add_members_wf:
  "matrix_wf n A \<Longrightarrow> matrix_wf n (foldl (\<lambda>a member. add_assignment a member c v) A ls)"
  by (induction ls arbitrary: A) (auto simp: add_assignment_wf)

lemma add_members_get:
  "matrix_wf n A \<Longrightarrow> \<forall>l\<in>set ls. l < n \<Longrightarrow> c < n \<Longrightarrow> i < n \<Longrightarrow> j < n \<Longrightarrow>
   foldl (\<lambda>a member. add_assignment a member c v) A ls ! i ! j =
     A ! i ! j + (if j = c then of_nat (count_list ls i) * v else 0)"
proof (induction ls arbitrary: A)
  case Nil
  then show ?case by simp
next
  case (Cons l ls)
  have wf': "matrix_wf n (add_assignment A l c v)"
    using Cons.prems(1) by (rule add_assignment_wf)
  have "foldl (\<lambda>a member. add_assignment a member c v) (add_assignment A l c v) ls ! i ! j =
        add_assignment A l c v ! i ! j + (if j = c then of_nat (count_list ls i) * v else 0)"
    using Cons.prems by (intro Cons.IH [OF wf']) auto
  also have "add_assignment A l c v ! i ! j = A ! i ! j + (if i = l \<and> j = c then v else 0)"
    using Cons.prems by (intro add_assignment_get) auto
  finally show ?case by (auto simp: algebra_simps)
qed

lemma count_list_distinct:
  "distinct ls \<Longrightarrow> count_list ls i = (if i \<in> set ls then 1 else 0)"
  by (induction ls) auto

lemma assign_loop_wf: "matrix_wf n (assign_loop n vars sol k)"
proof (induction k)
  case 0
  show ?case by (simp add: assign_loop_def matrix_wf_def list_all_iff)
next
  case (Suc k)
  then show ?case by (simp add: assign_loop_def add_members_wf)
qed

lemma assign_loop_get:
  assumes "vars_wf n vars" "i < n" "j < n" "k \<le> length vars"
  shows "assign_loop n vars sol k ! i ! j =
     (\<Sum>q<k. if var_median (vars ! q) = j
             then of_nat (count_list (var_locations (vars ! q)) i) * sol ! q else 0)"
  using assms(4)
proof (induction k)
  case 0
  with assms show ?case by (simp add: assign_loop_def)
next
  case (Suc k)
  have vk: "var_median (vars ! k) < n" "\<forall>l\<in>set (var_locations (vars ! k)). l < n"
  proof -
    from Suc.prems have "vars ! k \<in> set vars" by simp
    with assms(1) show "var_median (vars ! k) < n" "\<forall>l\<in>set (var_locations (vars ! k)). l < n"
      by (auto simp: vars_wf_def list_all_iff)
  qed
  have "assign_loop n vars sol (Suc k) =
        foldl (\<lambda>a member. add_assignment a member (var_median (vars ! k)) (sol ! k))
          (assign_loop n vars sol k) (var_locations (vars ! k))"
    by (simp add: assign_loop_def SCIPvarGetMedian_def SCIPvarGetLocations_def)
  then have "assign_loop n vars sol (Suc k) ! i ! j =
        assign_loop n vars sol k ! i ! j +
        (if j = var_median (vars ! k)
         then of_nat (count_list (var_locations (vars ! k)) i) * sol ! k else 0)"
    using add_members_get [OF assign_loop_wf vk(2) vk(1) assms(2,3)] by simp
  with Suc show ?case by auto
qed

text \<open>
  Claim C8. For master variables whose medians and members are locations and whose
  member lists have no repetition, the entry for location \<open>i\<close> and median \<open>j\<close> is
  the sum of the solution values of the variables with median \<open>j\<close> whose cluster
  contains \<open>i\<close>; the sum over no variable is 0.
\<close>

theorem computeAssignments_sum:
  assumes "vars_wf n vars" and "length sol = length vars" and "i < n" and "j < n"
  shows "computeAssignments n vars sol ! i ! j =
     (\<Sum>q | q < length vars \<and> SCIPvarGetMedian (vars ! q) = j \<and>
             SCIPisLocationInCluster (vars ! q) i. sol ! q)"
proof -
  have d: "count_list (var_locations (vars ! q)) i =
           (if i \<in> set (var_locations (vars ! q)) then 1 else 0)" if "q < length vars" for q
  proof -
    from that assms(1) have "distinct (var_locations (vars ! q))"
      by (auto simp: vars_wf_def list_all_length)
    then show ?thesis by (rule count_list_distinct)
  qed
  have "computeAssignments n vars sol ! i ! j = assign_loop n vars sol (length vars) ! i ! j"
    by (simp add: computeAssignments_def assign_loop_def)
  also have "\<dots> = (\<Sum>q<length vars. if var_median (vars ! q) = j
             then of_nat (count_list (var_locations (vars ! q)) i) * sol ! q else 0)"
    using assms by (intro assign_loop_get) auto
  also have "\<dots> = (\<Sum>q<length vars. if var_median (vars ! q) = j \<and> i \<in> set (var_locations (vars ! q))
             then sol ! q else 0)"
    by (intro sum.cong) (auto simp: d)
  also have "\<dots> = (\<Sum>q | q < length vars \<and> var_median (vars ! q) = j \<and>
             i \<in> set (var_locations (vars ! q)). sol ! q)"
    by (subst sum.inter_filter [symmetric]) (auto intro!: sum.cong)
  finally show ?thesis
    by (simp add: SCIPvarGetMedian_def SCIPisLocationInCluster_def location_search_iff)
qed

text \<open>
  The theorem at two locations and the columns (median 0, members 0 and 1) and
  (median 1, member 0), both at value one half.
\<close>

theorem computeAssignments_sum_witness:
  "vars_wf 2 [\<lparr>var_median = 0, var_locations = [0, 1], var_obj = 1, var_lb = 0, var_ub = 1\<rparr>,
              \<lparr>var_median = 1, var_locations = [0], var_obj = 0, var_lb = 0, var_ub = 1\<rparr>] \<and>
   (\<Sum>q | q < length [\<lparr>var_median = 0, var_locations = [0, 1], var_obj = 1, var_lb = 0, var_ub = 1\<rparr>,
              \<lparr>var_median = 1, var_locations = [0], var_obj = 0, var_lb = 0, var_ub = 1\<rparr>] \<and>
          SCIPvarGetMedian ([\<lparr>var_median = 0, var_locations = [0, 1], var_obj = 1, var_lb = 0, var_ub = 1\<rparr>,
              \<lparr>var_median = 1, var_locations = [0], var_obj = 0, var_lb = 0, var_ub = 1\<rparr>] ! q) = 0 \<and>
          SCIPisLocationInCluster ([\<lparr>var_median = 0, var_locations = [0, 1], var_obj = 1, var_lb = 0, var_ub = 1\<rparr>,
              \<lparr>var_median = 1, var_locations = [0], var_obj = 0, var_lb = 0, var_ub = 1\<rparr>] ! q) 1.
      [1 / 2, 1 / 2] ! q) = (1 / 2 :: real)"
proof -
  let ?V = "[\<lparr>var_median = 0, var_locations = [0, 1], var_obj = 1, var_lb = 0, var_ub = 1\<rparr>,
             \<lparr>var_median = 1, var_locations = [0], var_obj = 0, var_lb = 0, var_ub = 1\<rparr>]"
  have wf: "vars_wf 2 ?V" by (simp add: vars_wf_def)
  have val: "computeAssignments 2 ?V [1 / 2, 1 / 2] ! 1 ! 0 = 1 / 2"
    by (simp add: computeAssignments_def add_assignment_def SCIPvarGetMedian_def
        SCIPvarGetLocations_def upt_rec numeral_2_eq_2)
  from computeAssignments_sum [OF wf, of "[1 / 2, 1 / 2]" 1 0] val wf
  show ?thesis by simp
qed

subsection \<open>Choice of the branching location\<close>

lemma frac_medians_Suc:
  "frac_medians eps (Suc k) row =
     (if \<not> SCIPisFeasIntegral eps (row ! k) then insert k (frac_medians eps k row)
      else frac_medians eps k row)"
  by (auto simp: frac_medians_def less_Suc_eq)

lemma frac_medians_finite [simp]: "finite (frac_medians eps k row)"
  by (simp add: frac_medians_def)

lemma frac_medians_bound: "j \<in> frac_medians eps k row \<Longrightarrow> j < k"
  by (simp add: frac_medians_def)

lemma even_frac_medians_Suc:
  "{j \<in> frac_medians eps (Suc k) row. even j} =
     (if \<not> SCIPisFeasIntegral eps (row ! k) \<and> even k
      then insert k {j \<in> frac_medians eps k row. even j}
      else {j \<in> frac_medians eps k row. even j})"
  by (auto simp: frac_medians_Suc)

lemma frac_stats_char:
  "foldl (frac_step eps row) (0, 0, 0) [0..<k] =
     (card (frac_medians eps k row), (\<Sum>j \<in> frac_medians eps k row. row ! j),
      (\<Sum>j \<in> {j \<in> frac_medians eps k row. even j}. row ! j))"
proof (induction k)
  case 0
  show ?case by (simp add: frac_medians_def)
next
  case (Suc k)
  have notin: "k \<notin> frac_medians eps k row" "k \<notin> {j \<in> frac_medians eps k row. even j}"
    using frac_medians_bound [of k eps k row] by auto
  have "foldl (frac_step eps row) (0, 0, 0) [0..<Suc k] =
        frac_step eps row (foldl (frac_step eps row) (0, 0, 0) [0..<k]) k"
    by simp
  also have "\<dots> = frac_step eps row
      (card (frac_medians eps k row), (\<Sum>j \<in> frac_medians eps k row. row ! j),
       (\<Sum>j \<in> {j \<in> frac_medians eps k row. even j}. row ! j)) k"
    by (simp only: Suc)
  also have "\<dots> = (card (frac_medians eps (Suc k) row),
      (\<Sum>j \<in> frac_medians eps (Suc k) row. row ! j),
      (\<Sum>j \<in> {j \<in> frac_medians eps (Suc k) row. even j}. row ! j))"
  proof (cases "SCIPisFeasIntegral eps (row ! k)")
    case True
    then show ?thesis
      by (simp add: frac_step_def frac_medians_Suc)
  next
    case False
    note frac = this
    show ?thesis
    proof (cases "even k")
      case True
      have m: "k mod 2 = 0" using True by presburger
      show ?thesis
        unfolding even_frac_medians_Suc
        using frac True notin by (simp add: frac_step_def frac_medians_Suc m)
    next
      case False
      have m: "k mod 2 \<noteq> 0" using False by presburger
      show ?thesis
        unfolding even_frac_medians_Suc
        using frac False notin by (simp add: frac_step_def frac_medians_Suc m)
    qed
  qed
  finally show ?case .
qed

lemma nfrac_card: "nfrac eps n row = card (frac_medians eps n row)"
  by (simp add: nfrac_def frac_stats_def frac_stats_char)

lemma fracdiff_half_gap: "fracdiff eps n row = half_gap eps n row"
  by (simp add: fracdiff_def frac_stats_def frac_stats_char half_gap_def)

lemma feasLT_iff:
  "SCIPisFeasLT eps a b \<longleftrightarrow> a - b < - eps * max (max 1 \<bar>a\<bar>) \<bar>b\<bar>"
proof -
  have pos: "0 < max (max 1 \<bar>a\<bar>) \<bar>b\<bar>" by simp
  show ?thesis
    unfolding SCIPisFeasLT_def SCIPrelDiff_def
    by (simp add: pos_divide_less_eq [OF pos])
qed

lemma feasLT_irrefl: "0 \<le> eps \<Longrightarrow> \<not> SCIPisFeasLT eps a a"
proof -
  assume e: "0 \<le> eps"
  have "0 \<le> eps * max (max 1 \<bar>a\<bar>) \<bar>a\<bar>"
    using e by (intro mult_nonneg_nonneg) auto
  then show ?thesis by (simp add: feasLT_iff)
qed

lemma feasLT_trans:
  assumes e: "0 \<le> eps" and ab: "SCIPisFeasLT eps a b" and bc: "SCIPisFeasLT eps b c"
  shows "SCIPisFeasLT eps a c"
proof -
  let ?M = "\<lambda>x y. max (max 1 \<bar>x\<bar>) \<bar>y\<bar>"
  have "?M a c \<le> ?M a b + ?M b c" by auto
  then have "eps * ?M a c \<le> eps * (?M a b + ?M b c)"
    using e by (rule mult_left_mono)
  moreover have "a - b < - eps * ?M a b" "b - c < - eps * ?M b c"
    using ab bc by (simp_all add: feasLT_iff)
  ultimately have "a - c < - eps * ?M a c"
    by (simp add: algebra_simps)
  then show ?thesis by (simp add: feasLT_iff)
qed

lemma feasLT_less: "0 \<le> eps \<Longrightarrow> SCIPisFeasLT eps a b \<Longrightarrow> a < b"
proof -
  assume e: "0 \<le> eps" and "SCIPisFeasLT eps a b"
  then have "a - b < - eps * max (max 1 \<bar>a\<bar>) \<bar>b\<bar>" by (simp add: feasLT_iff)
  moreover have "0 \<le> eps * max (max 1 \<bar>a\<bar>) \<bar>b\<bar>"
    using e by (intro mult_nonneg_nonneg) auto
  ultimately show "a < b" by simp
qed

lemma choose_inv_posI:
  assumes "0 < mx" "l < k" "nfrac eps n (A ! l) = mx" "md = fracdiff eps n (A ! l)"
    and "\<And>i. i < k \<Longrightarrow> nfrac eps n (A ! i) \<le> mx"
    and "\<And>i. i < k \<Longrightarrow> nfrac eps n (A ! i) = mx \<Longrightarrow>
           \<not> SCIPisFeasLT eps (fracdiff eps n (A ! i)) md"
  shows "choose_inv eps n A k (int l, mx, md)"
  using assms by (simp add: choose_inv_def)

lemma choose_inv_zeroD:
  assumes "choose_inv eps n A k (loc, 0, md)"
  shows "loc = - 1" and "\<And>i. i < k \<Longrightarrow> nfrac eps n (A ! i) = 0"
  using assms by (simp_all add: choose_inv_def)

lemma choose_inv_posD:
  assumes "choose_inv eps n A k (loc, mx, md)" and "0 < mx"
  shows "0 \<le> loc" and "nat loc < k" and "nfrac eps n (A ! nat loc) = mx"
    and "md = fracdiff eps n (A ! nat loc)"
    and "\<And>i. i < k \<Longrightarrow> nfrac eps n (A ! i) \<le> mx"
    and "\<And>i. i < k \<Longrightarrow> nfrac eps n (A ! i) = mx \<Longrightarrow>
           \<not> SCIPisFeasLT eps (fracdiff eps n (A ! i)) md"
  using assms by (auto simp: choose_inv_def)

lemma choose_step_inv:
  assumes e: "0 \<le> eps" and inv: "choose_inv eps n A k st"
  shows "choose_inv eps n A (Suc k) (choose_step eps n A st k)"
proof -
  obtain loc mx md where st: "st = (loc, mx, md)" by (cases st)
  obtain nf tot half where fs: "frac_stats eps n (A ! k) = (nf, tot, half)"
    by (cases "frac_stats eps n (A ! k)")
  define d where "d = \<bar>half - 0.5 * tot\<bar>"
  have nf: "nfrac eps n (A ! k) = nf" and fd: "fracdiff eps n (A ! k) = d"
    by (simp_all add: nfrac_def fracdiff_def fs d_def)
  have step: "choose_step eps n A st k =
      (if nf > mx \<or> (nf > 0 \<and> nf = mx \<and> SCIPisFeasLT eps d md) then (int k, nf, d)
       else (loc, mx, md))"
    by (simp add: choose_step_def st fs d_def)
  have inv': "choose_inv eps n A k (loc, mx, md)" using inv st by simp
  have le_old: "nfrac eps n (A ! i) \<le> mx" if "i < k" for i
  proof (cases "mx = 0")
    case True
    with inv' that show ?thesis by (simp add: choose_inv_zeroD(2))
  next
    case False
    with inv' that show ?thesis by (simp add: choose_inv_posD(5))
  qed
  consider (gt) "nf > mx" | (tie) "\<not> nf > mx" "nf > 0" "nf = mx" "SCIPisFeasLT eps d md"
    | (keep) "\<not> nf > mx" "\<not> (nf > 0 \<and> nf = mx \<and> SCIPisFeasLT eps d md)"
    by blast
  then show ?thesis
  proof cases
    case gt
    have "choose_inv eps n A (Suc k) (int k, nf, d)"
    proof (rule choose_inv_posI)
      show "0 < nf" using gt by simp
      show "k < Suc k" by simp
      show "nfrac eps n (A ! k) = nf" by (rule nf)
      show "d = fracdiff eps n (A ! k)" by (simp add: fd)
      show "nfrac eps n (A ! i) \<le> nf" if "i < Suc k" for i
        using that le_old [of i] gt nf by (cases "i = k") auto
      show "\<not> SCIPisFeasLT eps (fracdiff eps n (A ! i)) d"
        if "i < Suc k" "nfrac eps n (A ! i) = nf" for i
      proof (cases "i = k")
        case True
        then show ?thesis by (simp add: fd feasLT_irrefl [OF e])
      next
        case False
        with that le_old [of i] gt show ?thesis by simp
      qed
    qed
    with gt show ?thesis by (simp add: step)
  next
    case tie
    have pos: "0 < mx" using tie by simp
    have "choose_inv eps n A (Suc k) (int k, nf, d)"
    proof (rule choose_inv_posI)
      show "0 < nf" using tie by simp
      show "k < Suc k" by simp
      show "nfrac eps n (A ! k) = nf" by (rule nf)
      show "d = fracdiff eps n (A ! k)" by (simp add: fd)
      show "nfrac eps n (A ! i) \<le> nf" if "i < Suc k" for i
        using that le_old [of i] tie nf by (cases "i = k") auto
      show "\<not> SCIPisFeasLT eps (fracdiff eps n (A ! i)) d"
        if "i < Suc k" "nfrac eps n (A ! i) = nf" for i
      proof (cases "i = k")
        case True
        then show ?thesis by (simp add: fd feasLT_irrefl [OF e])
      next
        case False
        with that have "i < k" by simp
        with that tie have "\<not> SCIPisFeasLT eps (fracdiff eps n (A ! i)) md"
          using choose_inv_posD(6) [OF inv' pos] by simp
        then show ?thesis
          using feasLT_trans [OF e _ tie(4)] by blast
      qed
    qed
    with tie show ?thesis by (simp add: step)
  next
    case keep
    have "choose_inv eps n A (Suc k) (loc, mx, md)"
    proof (cases "mx = 0")
      case True
      with keep nf have "nfrac eps n (A ! k) = 0" by simp
      moreover have "loc = - 1" "\<And>i. i < k \<Longrightarrow> nfrac eps n (A ! i) = 0"
        using inv' True by (simp_all add: choose_inv_zeroD)
      ultimately show ?thesis
        using True by (simp add: choose_inv_def less_Suc_eq)
    next
      case False
      then have pos: "0 < mx" by simp
      note D = choose_inv_posD [OF inv' pos]
      have "loc = int (nat loc)" using D(1) by simp
      moreover have "choose_inv eps n A (Suc k) (int (nat loc), mx, md)"
      proof (rule choose_inv_posI)
        show "0 < mx" by (rule pos)
        show "nat loc < Suc k" using D(2) by simp
        show "nfrac eps n (A ! nat loc) = mx" by (rule D(3))
        show "md = fracdiff eps n (A ! nat loc)" by (rule D(4))
        show "nfrac eps n (A ! i) \<le> mx" if "i < Suc k" for i
          using that le_old [of i] keep nf by (cases "i = k") auto
        show "\<not> SCIPisFeasLT eps (fracdiff eps n (A ! i)) md"
          if "i < Suc k" "nfrac eps n (A ! i) = mx" for i
        proof (cases "i = k")
          case True
          with that keep nf pos show ?thesis by (simp add: fd)
        next
          case False
          with that have "i < k" by simp
          with that show ?thesis using D(6) by simp
        qed
      qed
      ultimately show ?thesis by simp
    qed
    with keep show ?thesis by (auto simp: step)
  qed
qed

lemma choose_loop_inv:
  "0 \<le> eps \<Longrightarrow> choose_inv eps n A k (choose_loop eps n A k)"
proof (induction k)
  case 0
  show ?case by (simp add: choose_loop_def choose_inv_def)
next
  case (Suc k)
  then show ?case
    using choose_step_inv [of eps n A k "choose_loop eps n A k"]
    by (simp add: choose_loop_def)
qed

lemma chooseLocation_none:
  assumes "0 \<le> eps"
  shows "chooseLocation eps n A = - 1 \<longleftrightarrow> (\<forall>i<n. nfrac eps n (A ! i) = 0)"
proof -
  obtain loc mx md where st: "choose_loop eps n A n = (loc, mx, md)"
    by (cases "choose_loop eps n A n")
  from choose_loop_inv [OF assms, of n A n] show ?thesis
    by (cases "mx = 0") (auto simp: choose_inv_def st chooseLocation_def)
qed

lemma chooseLocation_some:
  assumes "0 \<le> eps" and "chooseLocation eps n A \<noteq> - 1"
  shows "0 \<le> chooseLocation eps n A \<and> nat (chooseLocation eps n A) < n \<and>
    (\<forall>i<n. nfrac eps n (A ! i) \<le> nfrac eps n (A ! nat (chooseLocation eps n A))) \<and>
    (\<forall>i<n. nfrac eps n (A ! i) = nfrac eps n (A ! nat (chooseLocation eps n A)) \<longrightarrow>
       \<not> SCIPisFeasLT eps (fracdiff eps n (A ! i)) (fracdiff eps n (A ! nat (chooseLocation eps n A)))) \<and>
    0 < nfrac eps n (A ! nat (chooseLocation eps n A))"
proof -
  obtain loc mx md where st: "choose_loop eps n A n = (loc, mx, md)"
    by (cases "choose_loop eps n A n")
  from choose_loop_inv [OF assms(1), of n A n] assms(2) show ?thesis
    by (cases "mx = 0") (auto simp: choose_inv_def st chooseLocation_def)
qed

subsection \<open>The branching masks\<close>

lemma branching_loop_Suc:
  "branching_loop eps n pd ids row loc (Suc k) =
     branching_step eps pd ids row loc (branching_loop eps n pd ids row loc k) k"
  by (simp add: branching_loop_def)

lemma branch_inv_0: "branch_inv n pd ids loc 0 (replicate n False) (replicate n False)"
  by (simp add: branch_inv_def)

lemma branch_inv_skip:
  assumes "branch_inv n pd ids loc k left right"
    and "SCIPpricerCpmpIsAssignmentForbidden pd (ids ! k) loc"
  shows "branch_inv n pd ids loc (Suc k) left right"
  using assms unfolding branch_inv_def less_Suc_eq by blast

lemma branch_inv_set:
  assumes inv: "branch_inv n pd ids loc k left right"
    and d: "distinct ids" and k: "k < length ids" and r: "ids ! k < n"
    and nf: "\<not> SCIPpricerCpmpIsAssignmentForbidden pd (ids ! k) loc"
  shows "branch_inv n pd ids loc (Suc k) (left[ids ! k := even k]) (right[ids ! k := odd k])"
proof -
  have fresh: "ids ! p \<noteq> ids ! k" if "p < k" for p
    using that d k by (simp add: nth_eq_iff_index_eq)
  have len: "length left = n" "length right = n"
    using inv by (simp_all add: branch_inv_def)
  have L: "(left[ids ! k := even k]) ! m =
      (\<exists>p<Suc k. ids ! p = m \<and> \<not> SCIPpricerCpmpIsAssignmentForbidden pd m loc \<and> even p)"
    if "m < n" for m
  proof (cases "m = ids ! k")
    case True
    then show ?thesis
      using that len nf fresh by (auto simp: less_Suc_eq)
  next
    case False
    have "left ! m = (\<exists>p<k. ids ! p = m \<and> \<not> SCIPpricerCpmpIsAssignmentForbidden pd m loc \<and> even p)"
      using inv that by (simp add: branch_inv_def)
    with False show ?thesis
      by (auto simp: less_Suc_eq)
  qed
  have R: "(right[ids ! k := odd k]) ! m =
      (\<exists>p<Suc k. ids ! p = m \<and> \<not> SCIPpricerCpmpIsAssignmentForbidden pd m loc \<and> odd p)"
    if "m < n" for m
  proof (cases "m = ids ! k")
    case True
    then show ?thesis
      using that len nf fresh by (auto simp: less_Suc_eq)
  next
    case False
    have "right ! m = (\<exists>p<k. ids ! p = m \<and> \<not> SCIPpricerCpmpIsAssignmentForbidden pd m loc \<and> odd p)"
      using inv that by (simp add: branch_inv_def)
    with False show ?thesis
      by (auto simp: less_Suc_eq)
  qed
  show ?thesis
    unfolding branch_inv_def using len L R by simp
qed

lemma branching_step_Inr:
  "branching_step eps pd ids row loc (Inr (left, right)) k =
     (if \<not> branching_assertion eps ids row k then Inl AssertionFailed
      else if SCIPpricerCpmpIsAssignmentForbidden pd (ids ! k) loc then Inr (left, right)
      else Inr (left[ids ! k := even k], right[ids ! k := odd k]))"
proof -
  have "k mod 2 = 1 \<longleftrightarrow> odd k" by presburger
  then show ?thesis
    by (auto simp: branching_step_def)
qed

lemma branching_step_Inl: "branching_step eps pd ids row loc (Inl e) k = Inl e"
  by (simp add: branching_step_def)

lemma branching_loop_ok:
  assumes d: "distinct ids" and len: "length ids = n" and r: "\<forall>p<n. ids ! p < n" and k: "k \<le> n"
    and a: "\<forall>p<k. branching_assertion eps ids row p"
  shows "\<exists>left right. branching_loop eps n pd ids row loc k = Inr (left, right) \<and>
           branch_inv n pd ids loc k left right"
  using k a
proof (induction k)
  case 0
  show ?case by (simp add: branching_loop_def branch_inv_0)
next
  case (Suc k)
  then obtain left right where
    lr: "branching_loop eps n pd ids row loc k = Inr (left, right)"
      "branch_inv n pd ids loc k left right"
    by auto
  have ak: "branching_assertion eps ids row k" using Suc.prems by simp
  have kn: "k < length ids" "ids ! k < n" using Suc.prems len r by auto
  show ?case
  proof (cases "SCIPpricerCpmpIsAssignmentForbidden pd (ids ! k) loc")
    case True
    then show ?thesis
      using lr ak branch_inv_skip [OF lr(2) True]
      by (simp add: branching_loop_Suc branching_step_Inr)
  next
    case False
    then show ?thesis
      using lr ak branch_inv_set [OF lr(2) d kn False]
      by (simp add: branching_loop_Suc branching_step_Inr)
  qed
qed

lemma branching_loop_fail:
  assumes "p < k" and "\<not> branching_assertion eps ids row p"
  shows "branching_loop eps n pd ids row loc k = Inl AssertionFailed"
  using assms
proof (induction k)
  case 0
  then show ?case by simp
next
  case (Suc k)
  show ?case
  proof (cases "p = k")
    case True
    show ?thesis
    proof (cases "branching_loop eps n pd ids row loc k")
      case (Inl e)
      then show ?thesis by (cases e) (simp add: branching_loop_Suc branching_step_Inl)
    next
      case (Inr lr)
      then show ?thesis
        using Suc.prems True by (cases lr) (simp add: branching_loop_Suc branching_step_Inr)
    qed
  next
    case False
    with Suc have "branching_loop eps n pd ids row loc k = Inl AssertionFailed" by simp
    then show ?thesis by (simp add: branching_loop_Suc branching_step_Inl)
  qed
qed

lemma branching_loop_Inr_iff:
  assumes d: "distinct ids" and len: "length ids = n" and r: "\<forall>p<n. ids ! p < n"
  shows "(\<exists>lr. branching_loop eps n pd ids row loc n = Inr lr) \<longleftrightarrow>
         (\<forall>p<n. branching_assertion eps ids row p)"
proof
  assume "\<exists>lr. branching_loop eps n pd ids row loc n = Inr lr"
  then obtain lr where lr: "branching_loop eps n pd ids row loc n = Inr lr" ..
  show "\<forall>p<n. branching_assertion eps ids row p"
  proof (intro allI impI, rule ccontr)
    fix p assume "p < n" "\<not> branching_assertion eps ids row p"
    then have "branching_loop eps n pd ids row loc n = Inl AssertionFailed"
      by (rule branching_loop_fail)
    with lr show False by simp
  qed
next
  assume "\<forall>p<n. branching_assertion eps ids row p"
  then show "\<exists>lr. branching_loop eps n pd ids row loc n = Inr lr"
    using branching_loop_ok [OF d len r, of n eps row pd loc] by auto
qed

subsection \<open>Sorting and the rows handed to the choice and to the branching\<close>

lemma sortDown_contractD:
  assumes c: "sortDown_contract srt" and s: "srt row [0..<n] = (keys, ids)" and len: "length row = n"
  shows "length keys = n" and "length ids = n" and "mset ids = mset [0..<n]"
    and "sorted_wrt (\<lambda>a b. a \<ge> b) keys" and "mset keys = mset row"
    and "\<And>p. p < n \<Longrightarrow> keys ! p = row ! (ids ! p)"
proof -
  from c s len have k: "length keys = n" and i: "length ids = n"
    and z: "mset (zip keys ids) = mset (zip row [0..<n])"
    and srtd: "sorted_wrt (\<lambda>a b. a \<ge> b) keys"
    unfolding sortDown_contract_def
    by (auto dest!: spec [where x = row] spec [where x = "[0..<n]"])
  show "length keys = n" "length ids = n" "sorted_wrt (\<lambda>a b. a \<ge> b) keys"
    by (rule k i srtd)+
  have "mset (map snd (zip keys ids)) = mset (map snd (zip row [0..<n]))"
    using z by (metis mset_map)
  then show "mset ids = mset [0..<n]"
    using k i len by simp
  have "mset (map fst (zip keys ids)) = mset (map fst (zip row [0..<n]))"
    using z by (metis mset_map)
  then show "mset keys = mset row"
    using k i len by simp
  show "keys ! p = row ! (ids ! p)" if "p < n" for p
  proof -
    have "(keys ! p, ids ! p) \<in> set (zip keys ids)"
      using that k i by (auto simp: set_zip)
    also have "set (zip keys ids) = set (zip row [0..<n])"
      using z by (rule mset_eq_setD)
    finally obtain q where "q < n" "keys ! p = row ! q" "ids ! p = [0..<n] ! q"
      using len by (auto simp: set_zip)
    then show ?thesis by simp
  qed
qed

lemma perm_upt_props:
  assumes "mset ids = mset [0..<n]"
  shows "distinct ids" and "length ids = n" and "\<forall>p<n. ids ! p < n"
    and "\<And>m. m < n \<Longrightarrow> \<exists>p<n. ids ! p = m"
proof -
  show d: "distinct ids" using assms by (metis distinct_upt mset_eq_imp_distinct_iff)
  show l: "length ids = n" using assms by (metis length_upt mset_eq_length minus_nat.diff_0)
  have s: "set ids = {0..<n}" using assms by (metis mset_eq_setD set_upt)
  show "\<forall>p<n. ids ! p < n"
  proof (intro allI impI)
    fix p assume "p < n"
    with l have "ids ! p \<in> set ids" by simp
    with s show "ids ! p < n" by simp
  qed
  show "\<exists>p<n. ids ! p = m" if "m < n" for m
  proof -
    from that s have "m \<in> set ids" by simp
    then show ?thesis using l by (auto simp: in_set_conv_nth)
  qed
qed

lemma computeAssignments_wf: "matrix_wf n (computeAssignments n vars sol)"
  using assign_loop_wf [of n vars sol "length vars"]
  by (simp add: computeAssignments_def assign_loop_def)

lemma computeAssignments_row_length:
  "i < n \<Longrightarrow> length (computeAssignments n vars sol ! i) = n"
  using computeAssignments_wf [of n vars sol] by (simp add: matrix_wf_def list_all_length)

lemma sorted_assignments_nth:
  "i < n \<Longrightarrow> sorted_assignments srt n vars sol ! i = srt (computeAssignments n vars sol ! i) [0..<n]"
  by (simp add: sorted_assignments_def sortMedians_def)

lemma sorted_assignments_length: "length (sorted_assignments srt n vars sol) = n"
  by (simp add: sorted_assignments_def sortMedians_def)

lemma choose_loop_range:
  "fst (choose_loop eps n A k) = - 1 \<or>
   (0 \<le> fst (choose_loop eps n A k) \<and> nat (fst (choose_loop eps n A k)) < k)"
proof (induction k)
  case 0
  show ?case by (simp add: choose_loop_def)
next
  case (Suc k)
  obtain loc mx md where st: "choose_loop eps n A k = (loc, mx, md)"
    by (cases "choose_loop eps n A k")
  obtain nf tot half where fs: "frac_stats eps n (A ! k) = (nf, tot, half)"
    by (cases "frac_stats eps n (A ! k)")
  have "choose_loop eps n A (Suc k) = choose_step eps n A (loc, mx, md) k"
    by (simp add: choose_loop_def st [symmetric])
  then have "fst (choose_loop eps n A (Suc k)) = int k \<or> fst (choose_loop eps n A (Suc k)) = loc"
    by (simp add: choose_step_def fs)
  with Suc st show ?case by auto
qed

lemma branch_location_range:
  "branch_location eps srt n vars sol \<noteq> - 1 \<Longrightarrow>
   0 \<le> branch_location eps srt n vars sol \<and> nat (branch_location eps srt n vars sol) < n"
  using choose_loop_range [of eps n "map fst (sorted_assignments srt n vars sol)" n]
  by (simp add: branch_location_def chooseLocation_def)

text \<open>The run of the callback, case by case.\<close>

lemma branchExeclp_none:
  "branch_location eps srt n vars sol = - 1 \<Longrightarrow>
   branchExeclpSemiassign eps srt n pd vars sol = Inr (SCIP_DIDNOTFIND, [])"
  by (simp add: branchExeclpSemiassign_def Let_def)

lemma branchExeclp_some:
  assumes "branch_location eps srt n vars sol \<noteq> - 1"
    and "srt (computeAssignments n vars sol ! nat (branch_location eps srt n vars sol)) [0..<n] = (keys, ids)"
  shows "branchExeclpSemiassign eps srt n pd vars sol =
     (case performBranching eps n pd ids keys (nat (branch_location eps srt n vars sol)) of
        Inl e \<Rightarrow> Inl e | Inr children \<Rightarrow> Inr (SCIP_BRANCHED, children))"
proof -
  have "nat (branch_location eps srt n vars sol) < n"
    using branch_location_range [OF assms(1)] by simp
  then show ?thesis
    using assms
    by (simp add: branchExeclpSemiassign_def Let_def sorted_assignments_nth sorted_assignments_length)
qed

lemma performBranching_masks:
  assumes p: "mset ids = mset [0..<n]"
    and r: "performBranching eps n pd ids keys loc = Inr children"
  shows "\<exists>left right. branch_inv n pd ids loc n left right \<and>
           children = [\<lparr>cons_location = loc, cons_forbidden = left, cons_node = 0,
                         cons_propagate = True, cons_npropvars = 0\<rparr>,
                       \<lparr>cons_location = loc, cons_forbidden = right, cons_node = 1,
                         cons_propagate = True, cons_npropvars = 0\<rparr>]"
proof -
  note P = perm_upt_props [OF p]
  from r obtain lr where lr: "branching_loop eps n pd ids keys loc n = Inr lr"
    by (auto simp: performBranching_def split: sum.splits)
  then have "\<forall>p<n. branching_assertion eps ids keys p"
    using branching_loop_Inr_iff [OF P(1,2,3)] by blast
  then obtain left right where
    l: "branching_loop eps n pd ids keys loc n = Inr (left, right)"
      "branch_inv n pd ids loc n left right"
    using branching_loop_ok [OF P(1,2,3) le_refl] by blast
  then have "length left = n" "length right = n" by (simp_all add: branch_inv_def)
  with r l show ?thesis
    by (auto simp: performBranching_def SCIPcreateConsSemiassign_def)
qed

subsection \<open>The insertion sort meets the contract\<close>

lemma mset_insert_down: "mset (insert_down p qs) = add_mset p (mset qs)"
  by (induction qs) auto

lemma set_insert_down: "set (insert_down p qs) = insert p (set qs)"
  by (induction qs) auto

lemma sorted_insert_down:
  "sorted_wrt (\<lambda>a b. fst a \<ge> fst b) qs \<Longrightarrow> sorted_wrt (\<lambda>a b. fst a \<ge> fst b) (insert_down p qs)"
  by (induction qs) (auto simp: set_insert_down)

lemma mset_foldr_insert_down: "mset (foldr insert_down xs []) = mset xs"
  by (induction xs) (auto simp: mset_insert_down)

lemma sorted_foldr_insert_down: "sorted_wrt (\<lambda>a b. fst a \<ge> fst b) (foldr insert_down xs [])"
  by (induction xs) (auto simp: sorted_insert_down)

lemma sortDown_insertion_contract: "sortDown_contract sortDown_insertion"
proof -
  have "length (map fst (foldr insert_down (zip keys ids) [])) = length keys \<and>
        length (map snd (foldr insert_down (zip keys ids) [])) = length ids \<and>
        mset (zip (map fst (foldr insert_down (zip keys ids) []))
                  (map snd (foldr insert_down (zip keys ids) []))) = mset (zip keys ids) \<and>
        sorted_wrt (\<lambda>a b. a \<ge> b) (map fst (foldr insert_down (zip keys ids) []))"
    if "length keys = length ids" for keys :: "real list" and ids :: "nat list"
  proof -
    let ?ps = "foldr insert_down (zip keys ids) []"
    have m: "mset ?ps = mset (zip keys ids)" by (rule mset_foldr_insert_down)
    then have "length ?ps = length (zip keys ids)" by (rule mset_eq_length)
    then have l: "length ?ps = length keys" using that by simp
    have s: "sorted_wrt (\<lambda>a b. a \<ge> b) (map fst ?ps)"
      using sorted_foldr_insert_down [of "zip keys ids"] by (simp add: sorted_wrt_map)
    show ?thesis using m l s that by (simp add: zip_map_fst_snd)
  qed
  then show ?thesis
    by (simp add: sortDown_contract_def sortDown_insertion_def Let_def)
qed

subsection \<open>The two children\<close>

lemma branch_inv_partition:
  assumes p: "mset ids = mset [0..<n]" and inv: "branch_inv n pd ids loc n left right"
  shows "forbidden_set n left \<inter> forbidden_set n right = {}"
    and "forbidden_set n left \<union> forbidden_set n right =
         {m \<in> {..<n}. \<not> SCIPpricerCpmpIsAssignmentForbidden pd m loc}"
proof -
  note P = perm_upt_props [OF p]
  have L: "left ! m = (\<exists>p<n. ids ! p = m \<and> \<not> SCIPpricerCpmpIsAssignmentForbidden pd m loc \<and> even p)"
    and R: "right ! m = (\<exists>p<n. ids ! p = m \<and> \<not> SCIPpricerCpmpIsAssignmentForbidden pd m loc \<and> odd p)"
    if "m < n" for m
    using inv that by (simp_all add: branch_inv_def)
  have uniq: "p = q" if "p < n" "q < n" "ids ! p = ids ! q" for p q
    using that P(1,2) by (simp add: nth_eq_iff_index_eq)
  show "forbidden_set n left \<inter> forbidden_set n right = {}"
  proof (rule ccontr)
    assume "forbidden_set n left \<inter> forbidden_set n right \<noteq> {}"
    then obtain m where m: "m < n" "left ! m" "right ! m"
      by (auto simp: forbidden_set_def)
    from m L obtain p where p: "p < n" "ids ! p = m" "even p" by blast
    from m R obtain q where q: "q < n" "ids ! q = m" "odd q" by blast
    from uniq [OF p(1) q(1)] p q show False by simp
  qed
  show "forbidden_set n left \<union> forbidden_set n right =
         {m \<in> {..<n}. \<not> SCIPpricerCpmpIsAssignmentForbidden pd m loc}"
  proof (intro set_eqI iffI)
    fix m assume "m \<in> forbidden_set n left \<union> forbidden_set n right"
    then have "m < n" "left ! m \<or> right ! m" by (auto simp: forbidden_set_def)
    with L R show "m \<in> {m \<in> {..<n}. \<not> SCIPpricerCpmpIsAssignmentForbidden pd m loc}"
      by auto
  next
    fix m assume "m \<in> {m \<in> {..<n}. \<not> SCIPpricerCpmpIsAssignmentForbidden pd m loc}"
    then have m: "m < n" "\<not> SCIPpricerCpmpIsAssignmentForbidden pd m loc" by auto
    from P(4) [OF m(1)] obtain p where "p < n" "ids ! p = m" by blast
    with m L R have "left ! m \<or> right ! m" by (cases "even p") auto
    with m show "m \<in> forbidden_set n left \<union> forbidden_set n right"
      by (auto simp: forbidden_set_def)
  qed
qed

lemma branchExeclp_branched:
  assumes c: "sortDown_contract srt"
    and b: "branchExeclpSemiassign eps srt n pd vars sol = Inr (SCIP_BRANCHED, children)"
    and s: "srt (computeAssignments n vars sol ! nat (branch_location eps srt n vars sol)) [0..<n] = (keys, ids)"
  shows "nat (branch_location eps srt n vars sol) < n"
    and "mset ids = mset [0..<n]"
    and "\<exists>left right. branch_inv n pd ids (nat (branch_location eps srt n vars sol)) n left right \<and>
           children = [\<lparr>cons_location = nat (branch_location eps srt n vars sol),
                         cons_forbidden = left, cons_node = 0,
                         cons_propagate = True, cons_npropvars = 0\<rparr>,
                       \<lparr>cons_location = nat (branch_location eps srt n vars sol),
                         cons_forbidden = right, cons_node = 1,
                         cons_propagate = True, cons_npropvars = 0\<rparr>]"
proof -
  have ne: "branch_location eps srt n vars sol \<noteq> - 1"
    using b by (auto simp: branchExeclpSemiassign_def Let_def)
  then show lt: "nat (branch_location eps srt n vars sol) < n"
    using branch_location_range by simp
  show p: "mset ids = mset [0..<n]"
    using sortDown_contractD(3) [OF c s computeAssignments_row_length [OF lt]] .
  from b have "performBranching eps n pd ids keys (nat (branch_location eps srt n vars sol)) = Inr children"
    by (simp add: branchExeclp_some [OF ne s] split: sum.splits)
  from performBranching_masks [OF p this]
  show "\<exists>left right. branch_inv n pd ids (nat (branch_location eps srt n vars sol)) n left right \<and>
           children = [\<lparr>cons_location = nat (branch_location eps srt n vars sol),
                         cons_forbidden = left, cons_node = 0,
                         cons_propagate = True, cons_npropvars = 0\<rparr>,
                       \<lparr>cons_location = nat (branch_location eps srt n vars sol),
                         cons_forbidden = right, cons_node = 1,
                         cons_propagate = True, cons_npropvars = 0\<rparr>]" .
qed

text \<open>
  Claim C2. Whenever the callback branches, it creates exactly two children, both for
  the chosen location; the sets of medians their masks forbid are disjoint, and
  their union is the set of medians that were not forbidden for that location
  before.
\<close>

theorem branching_children_partition:
  assumes "sortDown_contract srt" and "pricer_wf n pd" and "vars_wf n vars"
    and "branchExeclpSemiassign feastol srt n pd vars sol = Inr (SCIP_BRANCHED, children)"
  shows "length children = 2 \<and>
    cons_location (children ! 0) = nat (branch_location feastol srt n vars sol) \<and>
    cons_location (children ! 1) = nat (branch_location feastol srt n vars sol) \<and>
    forbidden_set n (cons_forbidden (children ! 0)) \<inter>
      forbidden_set n (cons_forbidden (children ! 1)) = {} \<and>
    forbidden_set n (cons_forbidden (children ! 0)) \<union>
      forbidden_set n (cons_forbidden (children ! 1)) =
      {m \<in> {..<n}. \<not> SCIPpricerCpmpIsAssignmentForbidden pd m
                        (nat (branch_location feastol srt n vars sol))}"
proof -
  obtain keys ids where
    s: "srt (computeAssignments n vars sol ! nat (branch_location feastol srt n vars sol)) [0..<n] = (keys, ids)"
    by (cases "srt (computeAssignments n vars sol ! nat (branch_location feastol srt n vars sol)) [0..<n]")
  note B = branchExeclp_branched [OF assms(1) assms(4) s]
  from B(3) obtain left right where
    inv: "branch_inv n pd ids (nat (branch_location feastol srt n vars sol)) n left right"
    and ch: "children = [\<lparr>cons_location = nat (branch_location feastol srt n vars sol),
                         cons_forbidden = left, cons_node = 0,
                         cons_propagate = True, cons_npropvars = 0\<rparr>,
                       \<lparr>cons_location = nat (branch_location feastol srt n vars sol),
                         cons_forbidden = right, cons_node = 1,
                         cons_propagate = True, cons_npropvars = 0\<rparr>]"
    by blast
  from branch_inv_partition [OF B(2) inv] show ?thesis
    by (simp add: ch)
qed

text \<open>
  The theorem at four locations, two columns at values 3/5 and 2/5 that both
  contain every location, and median 2 forbidden for location 0.
\<close>

theorem branching_children_partition_witness:
  "sortDown_contract sortDown_insertion \<and>
   pricer_wf 4 (SCIPpricerCpmpForbidAssignments 4 (pricerInitsolCpmp 4) 0 [False, False, True, False]) \<and>
   vars_wf 4 [column 0 [0, 1, 2, 3], column 1 [0, 1, 2, 3]] \<and>
   branchExeclpSemiassign (1 / 1000000) sortDown_insertion 4
     (SCIPpricerCpmpForbidAssignments 4 (pricerInitsolCpmp 4) 0 [False, False, True, False])
     [column 0 [0, 1, 2, 3], column 1 [0, 1, 2, 3]] [3 / 5, 2 / 5] =
   Inr (SCIP_BRANCHED,
     [\<lparr>cons_location = 0, cons_forbidden = [True, False, False, False], cons_node = 0,
       cons_propagate = True, cons_npropvars = 0\<rparr>,
      \<lparr>cons_location = 0, cons_forbidden = [False, True, False, True], cons_node = 1,
       cons_propagate = True, cons_npropvars = 0\<rparr>]) \<and>
   forbidden_set 4 [True, False, False, False] \<inter> forbidden_set 4 [False, True, False, True] = {} \<and>
   forbidden_set 4 [True, False, False, False] \<union> forbidden_set 4 [False, True, False, True] =
     {m \<in> {..<4}. \<not> SCIPpricerCpmpIsAssignmentForbidden
        (SCIPpricerCpmpForbidAssignments 4 (pricerInitsolCpmp 4) 0 [False, False, True, False]) m 0}"
proof -
  let ?pd = "SCIPpricerCpmpForbidAssignments 4 (pricerInitsolCpmp 4) 0 [False, False, True, False]"
  let ?V = "[column 0 [0, 1, 2, 3], column 1 [0, 1, 2, 3]]"
  have wf: "pricer_wf 4 ?pd" "vars_wf 4 ?V" by code_simp+
  have run: "branchExeclpSemiassign (1 / 1000000) sortDown_insertion 4 ?pd ?V [3 / 5, 2 / 5] =
    Inr (SCIP_BRANCHED,
     [\<lparr>cons_location = 0, cons_forbidden = [True, False, False, False], cons_node = 0,
       cons_propagate = True, cons_npropvars = 0\<rparr>,
      \<lparr>cons_location = 0, cons_forbidden = [False, True, False, True], cons_node = 1,
       cons_propagate = True, cons_npropvars = 0\<rparr>])"
    by code_simp
  have loc: "branch_location (1 / 1000000) sortDown_insertion 4 ?V [3 / 5, 2 / 5] = 0"
    by code_simp
  from branching_children_partition [OF sortDown_insertion_contract wf run]
  show ?thesis
    using wf run sortDown_insertion_contract by (simp add: loc)
qed

text \<open>
  Claim C3, as amended. With \<open>keys\<close> and \<open>ids\<close> the sorted row and the median order of
  the chosen location: the values are non-increasing along the order, which is a
  permutation of the medians (nothing is said about equal values); the median at
  position \<open>p\<close> is forbidden in the left child exactly when it was not forbidden
  before and \<open>p\<close> is even, and in the right child exactly when it was not forbidden
  before and \<open>p\<close> is odd. The position counts all medians, the skipped ones too.
\<close>

theorem branching_alternation_by_position:
  assumes "sortDown_contract srt" and "pricer_wf n pd" and "vars_wf n vars"
    and "branchExeclpSemiassign feastol srt n pd vars sol = Inr (SCIP_BRANCHED, children)"
    and "srt (computeAssignments n vars sol ! nat (branch_location feastol srt n vars sol)) [0..<n] =
           (keys, ids)"
  shows "sorted_wrt (\<lambda>a b. a \<ge> b) keys \<and> mset ids = mset [0..<n] \<and>
    (\<forall>p<n. keys ! p =
       computeAssignments n vars sol ! nat (branch_location feastol srt n vars sol) ! (ids ! p)) \<and>
    (\<forall>p<n. cons_forbidden (children ! 0) ! (ids ! p) =
              (\<not> SCIPpricerCpmpIsAssignmentForbidden pd (ids ! p)
                   (nat (branch_location feastol srt n vars sol)) \<and> even p) \<and>
            cons_forbidden (children ! 1) ! (ids ! p) =
              (\<not> SCIPpricerCpmpIsAssignmentForbidden pd (ids ! p)
                   (nat (branch_location feastol srt n vars sol)) \<and> odd p))"
proof -
  let ?loc = "nat (branch_location feastol srt n vars sol)"
  note B = branchExeclp_branched [OF assms(1) assms(4) assms(5)]
  note S = sortDown_contractD [OF assms(1) assms(5) computeAssignments_row_length [OF B(1)]]
  note P = perm_upt_props [OF B(2)]
  from B(3) obtain left right where
    inv: "branch_inv n pd ids ?loc n left right"
    and ch: "children = [\<lparr>cons_location = ?loc, cons_forbidden = left, cons_node = 0,
                         cons_propagate = True, cons_npropvars = 0\<rparr>,
                       \<lparr>cons_location = ?loc, cons_forbidden = right, cons_node = 1,
                         cons_propagate = True, cons_npropvars = 0\<rparr>]"
    by blast
  have uniq: "p = q" if "p < n" "q < n" "ids ! p = ids ! q" for p q
    using that P(1,2) by (simp add: nth_eq_iff_index_eq)
  have masks: "left ! (ids ! p) =
        (\<not> SCIPpricerCpmpIsAssignmentForbidden pd (ids ! p) ?loc \<and> even p) \<and>
      right ! (ids ! p) =
        (\<not> SCIPpricerCpmpIsAssignmentForbidden pd (ids ! p) ?loc \<and> odd p)" if "p < n" for p
  proof -
    have m: "ids ! p < n" using P(3) that by simp
    have "left ! (ids ! p) = (\<exists>q<n. ids ! q = ids ! p \<and>
            \<not> SCIPpricerCpmpIsAssignmentForbidden pd (ids ! p) ?loc \<and> even q)"
      and "right ! (ids ! p) = (\<exists>q<n. ids ! q = ids ! p \<and>
            \<not> SCIPpricerCpmpIsAssignmentForbidden pd (ids ! p) ?loc \<and> odd q)"
      using inv m by (simp_all add: branch_inv_def)
    then show ?thesis using uniq [OF _ that] that by blast
  qed
  show ?thesis
    using S(4) B(2) S(6) masks by (simp add: ch)
qed

text \<open>
  The theorem at three locations whose rows are 1/5, 1/2, 3/10: the median order of
  location 0 is 1, 2, 0, so medians 1 and 0 go to the left mask and median 2 to the
  right mask.
\<close>

theorem branching_alternation_by_position_witness:
  "sortDown_contract sortDown_insertion \<and>
   pricer_wf 3 (pricerInitsolCpmp 3) \<and>
   vars_wf 3 [column 0 [0, 1, 2], column 1 [0, 1, 2], column 2 [0, 1, 2]] \<and>
   branchExeclpSemiassign (1 / 1000000) sortDown_insertion 3 (pricerInitsolCpmp 3)
     [column 0 [0, 1, 2], column 1 [0, 1, 2], column 2 [0, 1, 2]] [1 / 5, 1 / 2, 3 / 10] =
   Inr (SCIP_BRANCHED,
     [\<lparr>cons_location = 0, cons_forbidden = [True, True, False], cons_node = 0,
       cons_propagate = True, cons_npropvars = 0\<rparr>,
      \<lparr>cons_location = 0, cons_forbidden = [False, False, True], cons_node = 1,
       cons_propagate = True, cons_npropvars = 0\<rparr>]) \<and>
   sortDown_insertion
     (computeAssignments 3 [column 0 [0, 1, 2], column 1 [0, 1, 2], column 2 [0, 1, 2]]
        [1 / 5, 1 / 2, 3 / 10] ! 0) [0..<3] = ([1 / 2, 3 / 10, 1 / 5], [1, 2, 0]) \<and>
   [True, True, False] ! ([1, 2, 0] ! 2) =
     (\<not> SCIPpricerCpmpIsAssignmentForbidden (pricerInitsolCpmp 3) ([1, 2, 0] ! 2) 0 \<and>
      even (2::nat))"
proof -
  let ?pd = "pricerInitsolCpmp 3"
  let ?V = "[column 0 [0, 1, 2], column 1 [0, 1, 2], column 2 [0, 1, 2]]"
  let ?S = "[1 / 5, 1 / 2, 3 / 10] :: real list"
  have wf: "pricer_wf 3 ?pd" "vars_wf 3 ?V" by code_simp+
  have run: "branchExeclpSemiassign (1 / 1000000) sortDown_insertion 3 ?pd ?V ?S =
    Inr (SCIP_BRANCHED,
     [\<lparr>cons_location = 0, cons_forbidden = [True, True, False], cons_node = 0,
       cons_propagate = True, cons_npropvars = 0\<rparr>,
      \<lparr>cons_location = 0, cons_forbidden = [False, False, True], cons_node = 1,
       cons_propagate = True, cons_npropvars = 0\<rparr>])"
    by code_simp
  have loc: "branch_location (1 / 1000000) sortDown_insertion 3 ?V ?S = 0"
    by code_simp
  have srt: "sortDown_insertion (computeAssignments 3 ?V ?S ! nat 0) [0..<3] =
      ([1 / 2, 3 / 10, 1 / 5], [1, 2, 0])"
    by code_simp
  note T = branching_alternation_by_position
    [OF sortDown_insertion_contract wf run, unfolded loc, OF srt]
  from T have "\<forall>p<3. [True, True, False] ! ([1, 2, 0] ! p) =
      (\<not> SCIPpricerCpmpIsAssignmentForbidden ?pd ([1, 2, 0] ! p) 0 \<and> even p)"
    by simp
  then have "[True, True, False] ! ([1, 2, 0] ! 2) =
      (\<not> SCIPpricerCpmpIsAssignmentForbidden ?pd ([1, 2, 0] ! 2) 0 \<and> even (2::nat))"
    by (rule allE [where x = 2]) simp
  with wf run sortDown_insertion_contract srt show ?thesis by simp
qed

text \<open>
  Claim C3 as stated fails when a forbidden median is skipped between candidates.
  Four locations with rows 3/5, 2/5, 0, 0 and median 2 forbidden for location 0:
  the order is 0, 1, 2, 3 (equal values by index), the remaining candidates are
  0, 1, 3, and alternating among them would forbid 0 and 3 on the left and 1 on
  the right. The code forbids 0 on the left and 1 and 3 on the right, because
  median 3 stands at the odd position 3.
\<close>

theorem branching_alternation_counterexample:
  "branchExeclpSemiassign (1 / 1000000) sortDown_insertion 4
     (SCIPpricerCpmpForbidAssignments 4 (pricerInitsolCpmp 4) 0 [False, False, True, False])
     [column 0 [0, 1, 2, 3], column 1 [0, 1, 2, 3]] [3 / 5, 2 / 5] =
   Inr (SCIP_BRANCHED,
     [\<lparr>cons_location = 0, cons_forbidden = [True, False, False, False], cons_node = 0,
       cons_propagate = True, cons_npropvars = 0\<rparr>,
      \<lparr>cons_location = 0, cons_forbidden = [False, True, False, True], cons_node = 1,
       cons_propagate = True, cons_npropvars = 0\<rparr>]) \<and>
   sortDown_insertion
     (computeAssignments 4 [column 0 [0, 1, 2, 3], column 1 [0, 1, 2, 3]] [3 / 5, 2 / 5] ! 0)
     [0..<4] = ([3 / 5, 2 / 5, 0, 0], [0, 1, 2, 3]) \<and>
   alternate (remaining_candidates
      (SCIPpricerCpmpForbidAssignments 4 (pricerInitsolCpmp 4) 0 [False, False, True, False])
      [0, 1, 2, 3] 0) True = ([0, 3], [1]) \<and>
   forbidden_set 4 [True, False, False, False] \<noteq> set [0, 3]"
proof -
  have "(3::nat) \<notin> forbidden_set 4 [True, False, False, False]"
    by (simp add: forbidden_set_def)
  then have "forbidden_set 4 [True, False, False, False] \<noteq> set [0, 3]"
    by auto
  moreover have "branchExeclpSemiassign (1 / 1000000) sortDown_insertion 4
     (SCIPpricerCpmpForbidAssignments 4 (pricerInitsolCpmp 4) 0 [False, False, True, False])
     [column 0 [0, 1, 2, 3], column 1 [0, 1, 2, 3]] [3 / 5, 2 / 5] =
   Inr (SCIP_BRANCHED,
     [\<lparr>cons_location = 0, cons_forbidden = [True, False, False, False], cons_node = 0,
       cons_propagate = True, cons_npropvars = 0\<rparr>,
      \<lparr>cons_location = 0, cons_forbidden = [False, True, False, True], cons_node = 1,
       cons_propagate = True, cons_npropvars = 0\<rparr>])"
    by code_simp
  moreover have "sortDown_insertion
     (computeAssignments 4 [column 0 [0, 1, 2, 3], column 1 [0, 1, 2, 3]] [3 / 5, 2 / 5] ! 0)
     [0..<4] = ([3 / 5, 2 / 5, 0, 0], [0, 1, 2, 3])"
    by code_simp
  moreover have "alternate (remaining_candidates
      (SCIPpricerCpmpForbidAssignments 4 (pricerInitsolCpmp 4) 0 [False, False, True, False])
      [0, 1, 2, 3] 0) True = ([0, 3], [1])"
    by code_simp
  ultimately show ?thesis by blast
qed

subsection \<open>The criterion of the choice\<close>

lemma sorted_rows_map:
  "i < n \<Longrightarrow> map fst (sorted_assignments srt n vars sol) ! i = sorted_row srt n vars sol i"
  by (simp add: sorted_row_def sorted_assignments_nth sorted_assignments_length)

text \<open>
  Claim C4, as amended. When a location is chosen, its sorted row has the largest
  number of fractional entries, and no location with as many has a gap
  \<open>|halffrac - 0.5 totfrac|\<close> that is smaller beyond the feasibility tolerance
  (\<^verbatim>\<open>SCIPisFeasLT\<close>). The rows are those the choice reads: each location's
  assignment values sorted into non-increasing order, so that \<open>halffrac\<close> sums the
  fractional values at the even positions of that order.
\<close>

theorem branch_location_criterion:
  assumes "0 \<le> feastol" and "sortDown_contract srt" and "vars_wf n vars"
    and "branch_location feastol srt n vars sol \<noteq> - 1"
  shows "0 \<le> branch_location feastol srt n vars sol \<and>
    nat (branch_location feastol srt n vars sol) < n \<and>
    (\<forall>i<n. sorted_wrt (\<lambda>a b. a \<ge> b) (sorted_row srt n vars sol i) \<and>
            mset (sorted_row srt n vars sol i) = mset (computeAssignments n vars sol ! i)) \<and>
    (\<forall>i<n. card (frac_medians feastol n (sorted_row srt n vars sol i)) \<le>
            card (frac_medians feastol n
              (sorted_row srt n vars sol (nat (branch_location feastol srt n vars sol))))) \<and>
    (\<forall>i<n. card (frac_medians feastol n (sorted_row srt n vars sol i)) =
            card (frac_medians feastol n
              (sorted_row srt n vars sol (nat (branch_location feastol srt n vars sol)))) \<longrightarrow>
            \<not> SCIPisFeasLT feastol (half_gap feastol n (sorted_row srt n vars sol i))
                (half_gap feastol n
                  (sorted_row srt n vars sol (nat (branch_location feastol srt n vars sol)))))"
proof -
  let ?A = "map fst (sorted_assignments srt n vars sol)"
  let ?loc = "nat (branch_location feastol srt n vars sol)"
  have ne: "chooseLocation feastol n ?A \<noteq> - 1"
    using assms(4) by (simp add: branch_location_def)
  note C = chooseLocation_some [OF assms(1) ne]
  have loc: "chooseLocation feastol n ?A = branch_location feastol srt n vars sol"
    by (simp add: branch_location_def)
  have lt: "?loc < n" using C loc by simp
  have rows: "sorted_wrt (\<lambda>a b. a \<ge> b) (sorted_row srt n vars sol i) \<and>
            mset (sorted_row srt n vars sol i) = mset (computeAssignments n vars sol ! i)"
    if "i < n" for i
  proof -
    obtain keys ids where s: "srt (computeAssignments n vars sol ! i) [0..<n] = (keys, ids)"
      by (cases "srt (computeAssignments n vars sol ! i) [0..<n]")
    from sortDown_contractD(4,5) [OF assms(2) s computeAssignments_row_length [OF that]] s
    show ?thesis by (simp add: sorted_row_def)
  qed
  have max: "card (frac_medians feastol n (sorted_row srt n vars sol i)) \<le>
            card (frac_medians feastol n (sorted_row srt n vars sol ?loc))" if "i < n" for i
    using C that lt by (simp add: loc nfrac_card sorted_rows_map)
  have tie: "\<not> SCIPisFeasLT feastol (half_gap feastol n (sorted_row srt n vars sol i))
                (half_gap feastol n (sorted_row srt n vars sol ?loc))"
    if "i < n" "card (frac_medians feastol n (sorted_row srt n vars sol i)) =
            card (frac_medians feastol n (sorted_row srt n vars sol ?loc))" for i
  proof -
    from C have "\<forall>i<n. nfrac feastol n (?A ! i) = nfrac feastol n (?A ! ?loc) \<longrightarrow>
       \<not> SCIPisFeasLT feastol (fracdiff feastol n (?A ! i)) (fracdiff feastol n (?A ! ?loc))"
      by (simp add: loc)
    with that lt show ?thesis
      by (simp add: nfrac_card fracdiff_half_gap sorted_rows_map)
  qed
  from C loc lt rows max tie show ?thesis by simp
qed

text \<open>
  The theorem at three locations: location 0 has the fractional row 2/5, 1/2, 1/10,
  the other two only the value 2/5.
\<close>

theorem branch_location_criterion_witness:
  "(0::real) \<le> 1 / 1000000 \<and> sortDown_contract sortDown_insertion \<and>
   vars_wf 3 [column 0 [0, 1, 2], column 1 [0], column 2 [0]] \<and>
   branch_location (1 / 1000000) sortDown_insertion 3
     [column 0 [0, 1, 2], column 1 [0], column 2 [0]] [2 / 5, 1 / 2, 1 / 10] = 0 \<and>
   card (frac_medians (1 / 1000000) 3
           (sorted_row sortDown_insertion 3 [column 0 [0, 1, 2], column 1 [0], column 2 [0]]
              [2 / 5, 1 / 2, 1 / 10] 1)) \<le>
     card (frac_medians (1 / 1000000) 3
             (sorted_row sortDown_insertion 3 [column 0 [0, 1, 2], column 1 [0], column 2 [0]]
                [2 / 5, 1 / 2, 1 / 10] 0))"
proof -
  let ?V = "[column 0 [0, 1, 2], column 1 [0], column 2 [0]]"
  let ?S = "[2 / 5, 1 / 2, 1 / 10] :: real list"
  have e: "(0::real) \<le> 1 / 1000000" by simp
  have wf: "vars_wf 3 ?V" by code_simp
  have loc: "branch_location (1 / 1000000) sortDown_insertion 3 ?V ?S = 0" by code_simp
  then have ne: "branch_location (1 / 1000000) sortDown_insertion 3 ?V ?S \<noteq> - 1" by simp
  note T = branch_location_criterion [OF e sortDown_insertion_contract wf ne, unfolded loc]
  have "card (frac_medians (1 / 1000000) 3 (sorted_row sortDown_insertion 3 ?V ?S 1)) \<le>
        card (frac_medians (1 / 1000000) 3 (sorted_row sortDown_insertion 3 ?V ?S 0))"
    using T by simp
  with e sortDown_insertion_contract wf loc show ?thesis by blast
qed

text \<open>
  Claim C4 as stated fails in two ways. First, \<open>halffrac\<close> is not taken over the
  medians with an even index: location 0 with assignment values 1/2, 0, 1/2, 0 (by
  median) and location 1 with 3/10, 7/10, 0, 0 both have two fractional medians; by
  median index the gaps are 1/2 and 1/5, so location 1 would be the minimiser, but
  the code chooses location 0, whose sorted row 1/2, 1/2, 0, 0 has gap 0. Second,
  the comparison is up to the tolerance: with sorted rows 3/5, 2/5, 0, 0 for
  location 0 and 0.5999999, 0.4000001, 0, 0 for location 1 the code keeps
  location 0, although the gap of location 1 is smaller by \<open>1e-7\<close>.
\<close>

theorem branch_location_criterion_counterexample:
  "branch_location (1 / 1000000) sortDown_insertion 4
     [column 0 [0], column 2 [0], column 0 [1], column 1 [1], column 3 [2, 3]]
     [1 / 2, 1 / 2, 3 / 10, 7 / 10, 1] = 0 \<and>
   computeAssignments 4
     [column 0 [0], column 2 [0], column 0 [1], column 1 [1], column 3 [2, 3]]
     [1 / 2, 1 / 2, 3 / 10, 7 / 10, 1] =
     [[1 / 2, 0, 1 / 2, 0], [3 / 10, 7 / 10, 0, 0], [0, 0, 0, 1], [0, 0, 0, 1]] \<and>
   card (frac_medians (1 / 1000000) 4 [3 / 10, 7 / 10, 0, 0]) =
     card (frac_medians (1 / 1000000) 4 [1 / 2, 0, 1 / 2, 0]) \<and>
   half_gap (1 / 1000000) 4 [3 / 10, 7 / 10, 0, 0] < half_gap (1 / 1000000) 4 [1 / 2, 0, 1 / 2, 0] \<and>
   branch_location (1 / 1000000) sortDown_insertion 4
     [column 0 [0, 2], column 1 [0, 2], column 2 [1, 3], column 3 [1, 3]]
     [3 / 5, 2 / 5, 5999999 / 10000000, 4000001 / 10000000] = 0 \<and>
   sorted_row sortDown_insertion 4
     [column 0 [0, 2], column 1 [0, 2], column 2 [1, 3], column 3 [1, 3]]
     [3 / 5, 2 / 5, 5999999 / 10000000, 4000001 / 10000000] 0 = [3 / 5, 2 / 5, 0, 0] \<and>
   sorted_row sortDown_insertion 4
     [column 0 [0, 2], column 1 [0, 2], column 2 [1, 3], column 3 [1, 3]]
     [3 / 5, 2 / 5, 5999999 / 10000000, 4000001 / 10000000] 1 =
     [5999999 / 10000000, 4000001 / 10000000, 0, 0] \<and>
   card (frac_medians (1 / 1000000) 4 [5999999 / 10000000, 4000001 / 10000000, 0, 0]) =
     card (frac_medians (1 / 1000000) 4 [3 / 5, 2 / 5, 0, 0]) \<and>
   half_gap (1 / 1000000) 4 [5999999 / 10000000, 4000001 / 10000000, 0, 0] <
     half_gap (1 / 1000000) 4 [3 / 5, 2 / 5, 0, 0]"
  unfolding nfrac_card [symmetric] fracdiff_half_gap [symmetric]
  by code_simp

subsection \<open>The assertion of the median loop\<close>

text \<open>
  Claim C9 against the code. Three locations, the columns (median 0; members 0, 1,
  2) at value 1 and (median 1; member 0), (median 2; member 0) at value 1/2:
  location 0 has two fractional assignments, so the callback does not report
  \<^verbatim>\<open>SCIP_DIDNOTFIND\<close>; but it does not report \<^verbatim>\<open>SCIP_BRANCHED\<close> either: the run ends in
  the assertion of \<^verbatim>\<open>performBranching\<close>.
\<close>

theorem branching_aborts_on_fractional_solution:
  "0 < nfrac (1 / 1000000) 3
         (sorted_row sortDown_insertion 3 [column 0 [0, 1, 2], column 1 [0], column 2 [0]]
            [1, 1 / 2, 1 / 2] 0) \<and>
   branchExeclpSemiassign (1 / 1000000) sortDown_insertion 3 (pricerInitsolCpmp 3)
     [column 0 [0, 1, 2], column 1 [0], column 2 [0]] [1, 1 / 2, 1 / 2] = Inl AssertionFailed"
  by code_simp

text \<open>
  Claim C10 against the code. For the same solution the chosen location is 0, its
  sorted row is 1, 1/2, 1/2 with median order 0, 1, 2, and the assertion fails at
  the first position: the value 1 is integral and not zero.
\<close>

theorem branching_assertion_fails:
  "computeAssignments 3 [column 0 [0, 1, 2], column 1 [0], column 2 [0]] [1, 1 / 2, 1 / 2] =
     [[1, 1 / 2, 1 / 2], [1, 0, 0], [1, 0, 0]] \<and>
   branch_location (1 / 1000000) sortDown_insertion 3
     [column 0 [0, 1, 2], column 1 [0], column 2 [0]] [1, 1 / 2, 1 / 2] = 0 \<and>
   sortDown_insertion [1, 1 / 2, 1 / 2] [0..<3] = ([1, 1 / 2, 1 / 2], [0, 1, 2]) \<and>
   SCIPisFeasIntegral (1 / 1000000) ([1, 1 / 2, 1 / 2] ! ([0, 1, 2] ! 0)) \<and>
   \<not> SCIPisFeasZero (1 / 1000000) ([1, 1 / 2, 1 / 2] ! ([0, 1, 2] ! 0)) \<and>
   performBranching (1 / 1000000) 3 (pricerInitsolCpmp 3) [0, 1, 2] [1, 1 / 2, 1 / 2] 0 =
     Inl AssertionFailed"
  by code_simp

subsection \<open>Propagation of a branching constraint\<close>












lemma propagated_upto_iff:
  "propagated_upto c vars k \<longleftrightarrow> (\<forall>q<k. violates c (vars ! q) \<longrightarrow> fixed_to_zero (vars ! q))"
  by (auto simp: propagated_upto_def list_all_iff)






lemma propagate_conss_cutoff:
  "propagate_conss eps conss vars SCIP_CUTOFF = Inr (conss, vars, SCIP_CUTOFF)"
  by (cases conss) simp_all

lemma violates_cons:
  "cons_location c' = cons_location c \<Longrightarrow> cons_forbidden c' = cons_forbidden c \<Longrightarrow>
   violates c' v = violates c v"
  by (simp add: violates_def)

lemma propagated_upto_cons:
  "cons_location c' = cons_location c \<Longrightarrow> cons_forbidden c' = cons_forbidden c \<Longrightarrow>
   propagated_upto c' vars k = propagated_upto c vars k"
  by (simp add: propagated_upto_iff violates_def)









end
